theory Spec2Isabelle
  imports Complex_Main "HOL-Library.Word"
begin

unbundle bit_operations_syntax

section \<open>Common vocabulary\<close>

text \<open>
  The model is sequential: every operation runs on one thread, to completion or, where it
  takes a mutex that thread already holds, never. Clock readings, the user's answer to a
  prompt and the data a native device answers with are inputs of the operation that needs
  them. Signals emitted by an operation are returned as a list, oldest first.
\<close>

subsection \<open>Mutexes\<close>

text \<open>
  A \<open>std::mutex\<close> is not recursive: a thread that constructs a \<open>std::lock_guard\<close> on a
  mutex it already holds waits for itself, and the function does not return. \<open>held\<close> tells
  whether the calling thread holds the mutex; \<open>body\<close> is what the function does under the
  lock, and the result \<open>None\<close> is the call that does not return. Waiting for a mutex
  another thread holds ends when that thread unlocks and is not modelled. The locks
  written out are those of the functions the program calls with the mutex held; every
  other lock is taken and released inside its function.
\<close>

definition lock_guard :: "bool \<Rightarrow> 'a option \<Rightarrow> 'a option" where
  "lock_guard held body = (if held then None else body)"

subsection \<open>Time\<close>

text \<open>
  A \<open>std::chrono\<close> time point is its tick count (nanoseconds) since the clock's epoch;
  the default-constructed \<open>time_point{}\<close> is 0. \<open>duration_cast\<close> to a coarser unit
  divides the tick count, truncating toward zero.
\<close>

type_synonym time_point = int

definition trunc_div :: "int \<Rightarrow> int \<Rightarrow> int" where
  "trunc_div n d = (if (n < 0) = (d < 0) then \<bar>n\<bar> div \<bar>d\<bar> else - (\<bar>n\<bar> div \<bar>d\<bar>))"

definition duration_cast_hours :: "int \<Rightarrow> int" where
  "duration_cast_hours d = trunc_div d 3600000000000"

definition duration_cast_milliseconds :: "int \<Rightarrow> int" where
  "duration_cast_milliseconds d = trunc_div d 1000000"

subsection \<open>Stream formatting\<close>

text \<open>
  \<open>std::hex << std::uppercase << std::setw(w) << std::setfill('0') << n\<close> prints the
  upper-case hexadecimal digits of \<open>n\<close>, padded on the left with zeros to \<open>w\<close> characters;
  \<open>std::to_string\<close> prints the decimal digits.
\<close>

definition digit_char :: "nat \<Rightarrow> char" where
  "digit_char n = ''0123456789ABCDEF'' ! n"

fun hex_digits :: "nat \<Rightarrow> string" where
  "hex_digits n = (if n < 16 then [digit_char n] else hex_digits (n div 16) @ [digit_char (n mod 16)])"

fun dec_digits :: "nat \<Rightarrow> string" where
  "dec_digits n = (if n < 10 then [digit_char n] else dec_digits (n div 10) @ [digit_char (n mod 10)])"

declare hex_digits.simps [simp del]
declare dec_digits.simps [simp del]

definition setw_fill0 :: "nat \<Rightarrow> string \<Rightarrow> string" where
  "setw_fill0 w s = replicate (w - length s) (CHR ''0'') @ s"

definition hex_upper :: "nat \<Rightarrow> nat \<Rightarrow> string" where
  "hex_upper w n = setw_fill0 w (hex_digits n)"

definition to_string :: "nat \<Rightarrow> string" where
  "to_string n = dec_digits n"

subsection \<open>Bounded deques\<close>

text \<open>
  Every bounded log of the program is a \<open>std::deque\<close> trimmed by the same loop:
  \<open>while (q.size() > cap) q.pop_front();\<close>
\<close>

function pop_front_while_over :: "nat \<Rightarrow> 'a list \<Rightarrow> 'a list" where
  "pop_front_while_over cap q = (if length q > cap then pop_front_while_over cap (tl q) else q)"
  by pat_completeness auto
termination
  by (relation "measure (\<lambda>(cap, q). length q)") auto

declare pop_front_while_over.simps [simp del]

subsection \<open>Double-precision arithmetic\<close>

text \<open>
  A finite \<open>double\<close> is the rational number it denotes. Every arithmetic operation and
  every conversion to \<open>double\<close> yields the exact result rounded to the nearest number
  with a 53-bit significand, ties to the even significand (\<open>fl\<close>); the exponent range is
  not bounded, so overflow and subnormal numbers are outside the model. \<open>ilog2 x\<close> is the
  binary exponent of a positive \<open>x\<close>, the \<open>e\<close> with \<open>2^e \<le> x < 2^(e+1)\<close>.
\<close>

fun bit_length :: "nat \<Rightarrow> nat" where
  "bit_length n = (if n = 0 then 0 else Suc (bit_length (n div 2)))"

declare bit_length.simps [simp del]

definition ilog2 :: "rat \<Rightarrow> int" where
  "ilog2 x = (if 1 \<le> x then int (bit_length (nat \<lfloor>x\<rfloor>)) - 1
              else - int (bit_length (nat (\<lceil>1 / x\<rceil> - 1))))"

definition round_half_even :: "rat \<Rightarrow> int" where
  "round_half_even y =
     (let f = \<lfloor>y\<rfloor>; d = y - of_int f
      in if d < 1 / 2 then f
         else if 1 / 2 < d then f + 1
         else if even f then f else f + 1)"

definition fl_pos :: "rat \<Rightarrow> rat" where
  "fl_pos x = of_int (round_half_even (x / 2 powi (ilog2 x - 52))) * 2 powi (ilog2 x - 52)"

definition fl :: "rat \<Rightarrow> rat" where
  "fl x = (if x = 0 then 0 else if 0 < x then fl_pos x else - fl_pos (- x))"

section \<open>Types.hpp and the native descriptors\<close>

record DeviceIdentifier =
  vendorId :: "16 word"
  productId :: "16 word"
  busNumber :: "8 word"
  deviceAddress :: "8 word"

text \<open>
  \<open>enum class DeviceClass\<close> values are produced by \<open>static_cast\<close> from the descriptor's
  class byte, so a device class is that byte; the enumerators are named constants.
\<close>

type_synonym DeviceClass = "8 word"

definition DeviceClass_HID :: DeviceClass where "DeviceClass_HID = 0x03"
definition DeviceClass_Printer :: DeviceClass where "DeviceClass_Printer = 0x07"
definition DeviceClass_MassStorage :: DeviceClass where "DeviceClass_MassStorage = 0x08"
definition DeviceClass_Hub :: DeviceClass where "DeviceClass_Hub = 0x09"
definition DeviceClass_Video :: DeviceClass where "DeviceClass_Video = 0x0E"
definition DeviceClass_AudioVideo :: DeviceClass where "DeviceClass_AudioVideo = 0x10"
definition DeviceClass_Diagnostic :: DeviceClass where "DeviceClass_Diagnostic = 0xDC"
definition DeviceClass_Wireless :: DeviceClass where "DeviceClass_Wireless = 0xE0"
definition DeviceClass_VendorSpecific :: DeviceClass where "DeviceClass_VendorSpecific = 0xFF"

text \<open>
  The configuration descriptor tree of libusb. The counted arrays
  (\<open>bNumInterfaces\<close>/\<open>interface\<close>, \<open>num_altsetting\<close>/\<open>altsetting\<close>,
  \<open>bNumEndpoints\<close>/\<open>endpoint\<close>) are lists, the count being the length.
\<close>

record libusb_endpoint_descriptor =
  bEndpointAddress :: "8 word"
  ep_bmAttributes :: "8 word"
  wMaxPacketSize :: "16 word"

record libusb_interface_descriptor =
  bInterfaceClass :: "8 word"
  endpoint :: "libusb_endpoint_descriptor list"

record libusb_interface =
  altsetting :: "libusb_interface_descriptor list"

record libusb_config_descriptor =
  interface :: "libusb_interface list"
  bmAttributes :: "8 word"
  MaxPower :: "8 word"

text \<open>
  A \<open>UsbDevice\<close> object: \<open>addr\<close> is the object's address, the identity under which the
  pointer-keyed maps hold it; a null pointer argument is \<open>None\<close>. \<open>device_speed\<close> is
  what \<open>libusb_get_device_speed\<close> answers and \<open>active_config\<close> what
  \<open>libusb_get_active_config_descriptor\<close> answers (\<open>None\<close> when the call fails).
\<close>

record UsbDevice =
  addr :: nat
  dev_identifier :: DeviceIdentifier
  bDeviceClass :: "8 word"
  isOpened :: bool
  device_speed :: int
  active_config :: "libusb_config_descriptor option"

definition deviceClass :: "UsbDevice \<Rightarrow> DeviceClass" where
  "deviceClass dev = bDeviceClass dev"

definition isOpen :: "UsbDevice \<Rightarrow> bool" where
  "isOpen dev = isOpened dev"

definition LIBUSB_SPEED_FULL :: int where
  "LIBUSB_SPEED_FULL = 2"

section \<open>DeviceAuthorizer\<close>

datatype AuthorizationMethod = Automatic | UserPrompt | SystemPolicy | Certificate | CustomMethod

record AuthorizationPolicy =
  autoAuthorizeKnownDevices :: bool
  requireUserConfirmation :: bool
  checkDeviceCertificates :: bool
  enforceSystemPolicies :: bool
  authorizationTimeout :: int

text \<open>The member initialisers of \<open>struct AuthorizationPolicy\<close> (timeout in seconds).\<close>

definition AuthorizationPolicy_default :: AuthorizationPolicy where
  "AuthorizationPolicy_default =
     \<lparr>autoAuthorizeKnownDevices = True, requireUserConfirmation = False,
      checkDeviceCertificates = False, enforceSystemPolicies = True,
      authorizationTimeout = 30\<rparr>"

record AuthorizationResult =
  authorized :: bool
  reason :: string
  timestamp :: time_point
  auth_method :: AuthorizationMethod

record DeviceAuthState =
  isAuthorized :: bool
  lastAuthAttempt :: time_point
  history :: "AuthorizationResult list"
  maxHistorySize :: nat

definition DeviceAuthState_default :: DeviceAuthState where
  "DeviceAuthState_default =
     \<lparr>isAuthorized = False, lastAuthAttempt = 0, history = [], maxHistorySize = 100\<rparr>"

record DeviceAuthorizer =
  policy :: AuthorizationPolicy
  deviceStates :: "nat \<rightharpoonup> DeviceAuthState"
  trustedCertificates :: "string list"
  customMethods :: "string \<rightharpoonup> (UsbDevice \<Rightarrow> AuthorizationResult)"

text \<open>The constructor sets the policy field by field; no device is known yet.\<close>

definition DeviceAuthorizer_new :: DeviceAuthorizer where
  "DeviceAuthorizer_new =
     \<lparr>policy = \<lparr>autoAuthorizeKnownDevices = True, requireUserConfirmation = True,
                checkDeviceCertificates = False, enforceSystemPolicies = True,
                authorizationTimeout = 30\<rparr>,
      deviceStates = Map.empty, trustedCertificates = [], customMethods = Map.empty\<rparr>"

text \<open>
  What one call of \<open>authorizeDevice\<close> reads from outside: the clock, in
  \<open>isAuthorizationExpired\<close>, for \<open>lastAuthAttempt\<close> and in \<open>createResult\<close>, and whether
  the message box was answered with Yes (a timeout rejects the box).
\<close>

record AuthEnv =
  now_expiry :: time_point
  now_attempt :: time_point
  now_result :: time_point
  userAccepts :: bool

text \<open>The checks a call went through, in the order it made them.\<close>

datatype AuthStep =
  SystemPoliciesChecked
  | CertificateChecked
  | CustomMethodInvoked string
  | UserPrompted

definition pruneHistory :: "DeviceAuthState \<Rightarrow> DeviceAuthState" where
  "pruneHistory st = st\<lparr>history := pop_front_while_over (maxHistorySize st) (history st)\<rparr>"

definition isAuthorizationExpired :: "time_point \<Rightarrow> DeviceAuthState \<Rightarrow> bool" where
  "isAuthorizationExpired now st =
     (if \<not> isAuthorized st then True
      else duration_cast_hours (now - lastAuthAttempt st) \<ge> 24)"

definition createResult :: "time_point \<Rightarrow> bool \<Rightarrow> string \<Rightarrow> AuthorizationMethod \<Rightarrow> AuthorizationResult" where
  "createResult now a r m = \<lparr>authorized = a, reason = r, timestamp = now, auth_method = m\<rparr>"

text \<open>
  \<open>validateDeviceCertificate\<close> takes \<open>stateMutex\<close> after its null test;
  \<open>stateMutexHeld\<close> tells whether its caller holds that mutex.
\<close>

definition validateDeviceCertificate ::
  "bool \<Rightarrow> UsbDevice option \<Rightarrow> DeviceAuthorizer \<Rightarrow> bool option" where
  "validateDeviceCertificate stateMutexHeld device a =
     (case device of
        None \<Rightarrow> Some False
      | Some dev \<Rightarrow>
          lock_guard stateMutexHeld
            (Some (if checkDeviceCertificates (policy a) \<and> trustedCertificates a = [] then False
                   else True)))"

definition checkSystemPolicies :: "UsbDevice option \<Rightarrow> bool" where
  "checkSystemPolicies device =
     (case device of
        None \<Rightarrow> False
      | Some dev \<Rightarrow>
          if device_speed dev > LIBUSB_SPEED_FULL \<and>
             (deviceClass dev = DeviceClass_MassStorage \<or>
              deviceClass dev = DeviceClass_Video \<or>
              deviceClass dev = DeviceClass_AudioVideo)
          then False
          else if deviceClass dev = DeviceClass_VendorSpecific \<or>
                  deviceClass dev = DeviceClass_Diagnostic \<or>
                  deviceClass dev = DeviceClass_Wireless
          then False
          else True)"

definition promptUserForAuthorization :: "AuthEnv \<Rightarrow> UsbDevice option \<Rightarrow> AuthorizationResult" where
  "promptUserForAuthorization env device =
     (case device of
        None \<Rightarrow> createResult (now_result env) False ''Invalid device'' UserPrompt
      | Some dev \<Rightarrow>
          createResult (now_result env) (userAccepts env)
            (if userAccepts env then ''User authorized device'' else ''User denied authorization'')
            UserPrompt)"

definition isKnownDevice :: "UsbDevice \<Rightarrow> bool" where
  "isKnownDevice dev =
     (deviceClass dev = DeviceClass_HID \<or> deviceClass dev = DeviceClass_Hub \<or>
      deviceClass dev = DeviceClass_Printer \<or> deviceClass dev = DeviceClass_MassStorage)"

definition deviceKey :: "UsbDevice \<Rightarrow> string" where
  "deviceKey dev =
     to_string (unat (vendorId (dev_identifier dev))) @ '':'' @
     to_string (unat (productId (dev_identifier dev)))"

text \<open>\<open>d->deviceStates[device]\<close>: the entry, default-constructed when absent.\<close>

definition stateOf :: "DeviceAuthorizer \<Rightarrow> nat \<Rightarrow> DeviceAuthState" where
  "stateOf a p = (case deviceStates a p of None \<Rightarrow> DeviceAuthState_default | Some st \<Rightarrow> st)"

definition storeState :: "DeviceAuthorizer \<Rightarrow> nat \<Rightarrow> DeviceAuthState \<Rightarrow> DeviceAuthorizer" where
  "storeState a p st = a\<lparr>deviceStates := (deviceStates a)(p \<mapsto> st)\<rparr>"

text \<open>\<open>state.history.push_back(result); d->pruneHistory(state);\<close>\<close>

definition recordResult :: "AuthorizationResult \<Rightarrow> DeviceAuthState \<Rightarrow> DeviceAuthState" where
  "recordResult r st = pruneHistory (st\<lparr>history := history st @ [r]\<rparr>)"

text \<open>The tail of \<open>authorizeDevice\<close>, from the user prompt on.\<close>

definition confirmOrPass ::
  "AuthEnv \<Rightarrow> UsbDevice \<Rightarrow> DeviceAuthorizer \<Rightarrow> DeviceAuthState \<Rightarrow> AuthStep list \<Rightarrow>
   AuthorizationResult \<times> DeviceAuthorizer \<times> AuthStep list" where
  "confirmOrPass env dev a st steps =
     (if requireUserConfirmation (policy a) then
        let r = promptUserForAuthorization env (Some dev);
            st1 = recordResult r st;
            st2 = (if authorized r then st1\<lparr>isAuthorized := True\<rparr> else st1)
        in (r, storeState a (addr dev) st2, steps @ [UserPrompted])
      else
        let r = createResult (now_result env) True ''All checks passed'' Automatic
        in (r, storeState a (addr dev) (recordResult r (st\<lparr>isAuthorized := True\<rparr>)), steps))"

text \<open>The part of \<open>authorizeDevice\<close> after the certificate check, from the custom methods on.\<close>

definition customOrConfirm ::
  "AuthEnv \<Rightarrow> UsbDevice \<Rightarrow> DeviceAuthorizer \<Rightarrow> DeviceAuthState \<Rightarrow> AuthStep list \<Rightarrow>
   AuthorizationResult \<times> DeviceAuthorizer \<times> AuthStep list" where
  "customOrConfirm env dev a st steps =
     (case customMethods a (deviceKey dev) of
        None \<Rightarrow> confirmOrPass env dev a st steps
      | Some m \<Rightarrow>
          let r = m dev; steps3 = steps @ [CustomMethodInvoked (deviceKey dev)] in
          if \<not> authorized r then (r, storeState a (addr dev) (recordResult r st), steps3)
          else confirmOrPass env dev a st steps3)"

text \<open>
  \<open>authorizeDevice\<close> takes \<open>stateMutex\<close> right after its null test and holds it until it
  returns, so it calls \<open>validateDeviceCertificate\<close> with the mutex held. \<open>stateMutex\<close> is a
  private member and every lock of it is a scoped \<open>lock_guard\<close>: a caller from outside the
  class does not hold it, and the lock on entry is taken.
\<close>

definition authorizeDevice ::
  "AuthEnv \<Rightarrow> UsbDevice option \<Rightarrow> DeviceAuthorizer \<Rightarrow>
   (AuthorizationResult \<times> DeviceAuthorizer \<times> AuthStep list) option" where
  "authorizeDevice env device a =
     (case device of
        None \<Rightarrow> Some (createResult (now_result env) False ''Invalid device'' Automatic, a, [])
      | Some dev \<Rightarrow>
          let stateMutexHeld = True;
              st0 = stateOf a (addr dev) in
          if isAuthorized st0 \<and> \<not> isAuthorizationExpired (now_expiry env) st0 then
            Some (createResult (now_result env) True ''Already authorized'' Automatic,
                  storeState a (addr dev) st0, [])
          else
            let st = st0\<lparr>isAuthorized := False, lastAuthAttempt := now_attempt env\<rparr> in
            if autoAuthorizeKnownDevices (policy a) \<and> isKnownDevice dev then
              let r = createResult (now_result env) True ''Known device type'' Automatic
              in Some (r, storeState a (addr dev) (recordResult r (st\<lparr>isAuthorized := True\<rparr>)), [])
            else
              let steps1 = (if enforceSystemPolicies (policy a) then [SystemPoliciesChecked] else []) in
              if enforceSystemPolicies (policy a) \<and> \<not> checkSystemPolicies (Some dev) then
                let r = createResult (now_result env) False ''System policy violation'' SystemPolicy
                in Some (r, storeState a (addr dev) (recordResult r st), steps1)
              else
                let steps2 = steps1 @ (if checkDeviceCertificates (policy a) then [CertificateChecked] else []) in
                case (if checkDeviceCertificates (policy a)
                      then validateDeviceCertificate stateMutexHeld (Some dev) a
                      else Some True) of
                  None \<Rightarrow> None
                | Some certified \<Rightarrow>
                    if \<not> certified then
                      let r = createResult (now_result env) False ''Certificate validation failed'' Certificate
                      in Some (r, storeState a (addr dev) (recordResult r st), steps2)
                    else Some (customOrConfirm env dev a st steps2))"

text \<open>\<open>setAuthorizationPolicy\<close> replaces the policy; it emits \<open>policyChanged\<close>.\<close>

definition setAuthorizationPolicy :: "AuthorizationPolicy \<Rightarrow> DeviceAuthorizer \<Rightarrow> DeviceAuthorizer" where
  "setAuthorizationPolicy p a = a\<lparr>policy := p\<rparr>"

section \<open>SecurityManager\<close>

datatype SecurityLevel = Low | Medium | High | Custom

datatype SecurityEvent =
  DeviceConnected
  | DeviceDisconnected
  | AuthorizationGranted
  | AuthorizationDenied
  | UnauthorizedAccess
  | MaliciousActivityDetected
  | ProtocolViolation
  | PolicyViolation

record SecurityRule =
  rule_vendorId :: "16 word"
  rule_productId :: "16 word"
  isWhitelisted :: bool
  requireAuthorization :: bool
  rule_securityLevel :: SecurityLevel
  allowedInterfaces :: "string list"
  expiryDate :: time_point

text \<open>\<open>SecurityRule{}\<close>: every member value-initialised.\<close>

definition SecurityRule_default :: SecurityRule where
  "SecurityRule_default =
     \<lparr>rule_vendorId = 0, rule_productId = 0, isWhitelisted = False,
      requireAuthorization = False, rule_securityLevel = Low,
      allowedInterfaces = [], expiryDate = 0\<rparr>"

record SecurityEventInfo =
  event :: SecurityEvent
  event_timestamp :: time_point
  deviceId :: string
  description :: string
  securityLevel :: SecurityLevel

record SecurityState =
  rules :: "SecurityRule list"
  events :: "SecurityEventInfo list"
  authorizedDevices :: "string \<rightharpoonup> bool"
  currentLevel :: SecurityLevel
  maxEventHistory :: nat

record SecurityManager =
  state :: SecurityState
  authorizer :: DeviceAuthorizer

datatype Signal =
  securityEventOccurred SecurityEventInfo
  | securityLevelChanged SecurityLevel
  | deviceBlocked nat string
  | configurationChanged
  | policyChanged

definition SecurityManager_new :: SecurityManager where
  "SecurityManager_new =
     \<lparr>state = \<lparr>rules = [], events = [], authorizedDevices = Map.empty,
               currentLevel = Medium, maxEventHistory = 10000\<rparr>,
      authorizer = DeviceAuthorizer_new\<rparr>"

definition matchesRule :: "SecurityRule \<Rightarrow> UsbDevice option \<Rightarrow> bool" where
  "matchesRule rule device =
     (case device of
        None \<Rightarrow> False
      | Some dev \<Rightarrow>
          rule_vendorId rule = vendorId (dev_identifier dev) \<and>
          rule_productId rule = productId (dev_identifier dev))"

text \<open>
  \<open>enforceSecurityLevel\<close> starts from a default-constructed policy, overwrites the
  members its case names and hands the policy to the authorizer; \<open>Custom\<close> returns
  before that.
\<close>

definition enforceSecurityLevel :: "SecurityLevel \<Rightarrow> SecurityManager \<Rightarrow> SecurityManager \<times> Signal list" where
  "enforceSecurityLevel level m =
     (case level of
        Low \<Rightarrow>
          (m\<lparr>authorizer := setAuthorizationPolicy
               (AuthorizationPolicy_default\<lparr>autoAuthorizeKnownDevices := True,
                  requireUserConfirmation := False, checkDeviceCertificates := False,
                  enforceSystemPolicies := False\<rparr>) (authorizer m)\<rparr>, [policyChanged])
      | Medium \<Rightarrow>
          (m\<lparr>authorizer := setAuthorizationPolicy
               (AuthorizationPolicy_default\<lparr>autoAuthorizeKnownDevices := True,
                  requireUserConfirmation := True, checkDeviceCertificates := False,
                  enforceSystemPolicies := True\<rparr>) (authorizer m)\<rparr>, [policyChanged])
      | High \<Rightarrow>
          (m\<lparr>authorizer := setAuthorizationPolicy
               (AuthorizationPolicy_default\<lparr>autoAuthorizeKnownDevices := False,
                  requireUserConfirmation := True, checkDeviceCertificates := True,
                  enforceSystemPolicies := True, authorizationTimeout := 15\<rparr>) (authorizer m)\<rparr>,
           [policyChanged])
      | Custom \<Rightarrow> (m, []))"

definition setSecurityLevel :: "SecurityLevel \<Rightarrow> SecurityManager \<Rightarrow> SecurityManager \<times> Signal list" where
  "setSecurityLevel level m =
     (if currentLevel (state m) = level then (m, [])
      else
        let m1 = m\<lparr>state := (state m)\<lparr>currentLevel := level\<rparr>\<rparr>;
            (m2, sigs) = enforceSecurityLevel level m1
        in (m2, sigs @ [securityLevelChanged level]))"

definition getSecurityLevel :: "SecurityManager \<Rightarrow> SecurityLevel" where
  "getSecurityLevel m = currentLevel (state m)"

text \<open>
  \<open>addSecurityRule\<close>: \<open>std::remove_if\<close> and \<open>erase\<close> keep the other rules in their order,
  \<open>push_back\<close> appends the new one.
\<close>

definition addSecurityRule :: "SecurityRule \<Rightarrow> SecurityManager \<Rightarrow> SecurityManager \<times> Signal list" where
  "addSecurityRule rule m =
     (m\<lparr>state := (state m)\<lparr>rules :=
          filter (\<lambda>existing. \<not> (rule_vendorId existing = rule_vendorId rule \<and>
                                rule_productId existing = rule_productId rule))
                 (rules (state m)) @ [rule]\<rparr>\<rparr>,
      [configurationChanged])"

definition getSecurityRules :: "SecurityManager \<Rightarrow> SecurityRule list" where
  "getSecurityRules m = rules (state m)"

text \<open>
  \<open>logSecurityEvent\<close> appends to the event deque, trims it to \<open>maxEventHistory\<close> and
  emits \<open>securityEventOccurred\<close>. \<open>now\<close> is the clock reading of the call.
\<close>

definition logSecurityEvent ::
  "time_point \<Rightarrow> SecurityEvent \<Rightarrow> UsbDevice option \<Rightarrow> string \<Rightarrow> SecurityManager \<Rightarrow>
   SecurityManager \<times> Signal list" where
  "logSecurityEvent now ev device descr m =
     (case device of
        None \<Rightarrow> (m, [])
      | Some dev \<Rightarrow>
          let eventInfo =
                \<lparr>event = ev, event_timestamp = now,
                 deviceId = hex_upper 4 (unat (vendorId (dev_identifier dev))) @ '':'' @
                            hex_upper 4 (unat (productId (dev_identifier dev))),
                 description = descr, securityLevel = getSecurityLevel m\<rparr>
          in (m\<lparr>state := (state m)\<lparr>events :=
                 pop_front_while_over (maxEventHistory (state m))
                   (events (state m) @ [eventInfo])\<rparr>\<rparr>,
              [securityEventOccurred eventInfo]))"

text \<open>
  \<open>validateDeviceInterfaces\<close>: the identifier of an interface class is \<open>0x\<close> followed by
  its two upper-case hexadecimal digits; the two loops stop at the first alternate setting
  whose identifier \<open>std::find\<close> does not find in the allow-list.
\<close>

definition interfaceId :: "8 word \<Rightarrow> string" where
  "interfaceId c = ''0x'' @ hex_upper 2 (unat c)"

fun altsettingsAllowed :: "string list \<Rightarrow> libusb_interface_descriptor list \<Rightarrow> bool" where
  "altsettingsAllowed allowed [] = True"
| "altsettingsAllowed allowed (setting # rest) =
     (if interfaceId (bInterfaceClass setting) \<notin> set allowed then False
      else altsettingsAllowed allowed rest)"

fun interfacesAllowed :: "string list \<Rightarrow> libusb_interface list \<Rightarrow> bool" where
  "interfacesAllowed allowed [] = True"
| "interfacesAllowed allowed (i # rest) =
     (if \<not> altsettingsAllowed allowed (altsetting i) then False
      else interfacesAllowed allowed rest)"

definition validateDeviceInterfaces :: "UsbDevice \<Rightarrow> SecurityRule \<Rightarrow> bool" where
  "validateDeviceInterfaces dev rule =
     (if allowedInterfaces rule = [] then True
      else case active_config dev of
             None \<Rightarrow> False
           | Some config \<Rightarrow> interfacesAllowed (allowedInterfaces rule) (interface config))"

definition findMatchingRule :: "UsbDevice option \<Rightarrow> SecurityManager \<Rightarrow> SecurityRule" where
  "findMatchingRule device m =
     (case find (\<lambda>rule. matchesRule rule device) (rules (state m)) of
        Some rule \<Rightarrow> rule
      | None \<Rightarrow> SecurityRule_default)"

text \<open>
  \<open>isDeviceAllowed\<close>. \<open>now\<close> is the clock reading of the call, used by the expiry test
  and as the time of the event that a denial logs.
\<close>

definition isDeviceAllowed ::
  "time_point \<Rightarrow> UsbDevice option \<Rightarrow> SecurityManager \<Rightarrow> bool \<times> SecurityManager \<times> Signal list" where
  "isDeviceAllowed now device m =
     (case device of
        None \<Rightarrow> (False, m, [])
      | Some dev \<Rightarrow>
          (case authorizedDevices (state m) (deviceKey dev) of
             Some cached \<Rightarrow> (cached, m, [])
           | None \<Rightarrow>
               let rule = findMatchingRule device m in
               if \<not> isWhitelisted rule then
                 (False, logSecurityEvent now UnauthorizedAccess device
                           ''Device is not whitelisted'' m)
               else if \<not> validateDeviceInterfaces dev rule then
                 (False, logSecurityEvent now PolicyViolation device
                           ''Device uses unauthorized interfaces'' m)
               else if expiryDate rule \<noteq> 0 \<and> now > expiryDate rule then
                 (False, logSecurityEvent now PolicyViolation device
                           ''Security rule has expired'' m)
               else (True, m, [])))"

subsection \<open>Protocol validation\<close>





text \<open>
  The running state of \<open>validateDeviceProtocol\<close>: the flag \<open>valid\<close>, the manager (its
  event log grows with every violation) and the signals emitted so far.
\<close>

type_synonym validation = "bool \<times> SecurityManager \<times> Signal list"








definition declaresInterfaceClass :: "libusb_config_descriptor \<Rightarrow> 8 word \<Rightarrow> bool" where
  "declaresInterfaceClass config c =
     (\<exists>i \<in> set (interface config). \<exists>setting \<in> set (altsetting i). bInterfaceClass setting = c)"





text \<open>\<open>samePair v p r\<close>: rule \<open>r\<close> is a rule for the pair (\<open>v\<close>, \<open>p\<close>).\<close>

definition samePair :: "16 word \<Rightarrow> 16 word \<Rightarrow> SecurityRule \<Rightarrow> bool" where
  "samePair v p r = (rule_vendorId r = v \<and> rule_productId r = p)"

text \<open>The policy table of the specification, row by row (the default timeout is 30 s).\<close>

definition presetPolicy :: "SecurityLevel \<Rightarrow> AuthorizationPolicy option" where
  "presetPolicy level =
     (case level of
        Low \<Rightarrow> Some \<lparr>autoAuthorizeKnownDevices = True, requireUserConfirmation = False,
                     checkDeviceCertificates = False, enforceSystemPolicies = False,
                     authorizationTimeout = 30\<rparr>
      | Medium \<Rightarrow> Some \<lparr>autoAuthorizeKnownDevices = True, requireUserConfirmation = True,
                     checkDeviceCertificates = False, enforceSystemPolicies = True,
                     authorizationTimeout = 30\<rparr>
      | High \<Rightarrow> Some \<lparr>autoAuthorizeKnownDevices = False, requireUserConfirmation = True,
                     checkDeviceCertificates = True, enforceSystemPolicies = True,
                     authorizationTimeout = 15\<rparr>
      | Custom \<Rightarrow> None)"

text \<open>
  The per-device states a \<open>DeviceAuthorizer\<close> can hold: the cap is the member initialiser
  100, which no operation changes, and every history respects it.
\<close>

definition authStatesBounded :: "DeviceAuthorizer \<Rightarrow> bool" where
  "authStatesBounded a =
     (\<forall>p st. deviceStates a p = Some st \<longrightarrow> maxHistorySize st = 100 \<and> length (history st) \<le> 100)"

text \<open>
  The cached-success test at the head of \<open>authorizeDevice\<close>, for the device at address \<open>p\<close>.
\<close>

definition cachedAuthorization :: "AuthEnv \<Rightarrow> DeviceAuthorizer \<Rightarrow> nat \<Rightarrow> bool" where
  "cachedAuthorization env a p =
     (isAuthorized (stateOf a p) \<and> \<not> isAuthorizationExpired (now_expiry env) (stateOf a p))"

text \<open>
  The calls of \<open>authorizeDevice\<close> that get as far as the certificate check: no cached
  authorization, no automatic authorization of a known device type, no system-policy
  denial, and a policy that checks certificates.
\<close>

definition reachesCertificateCheck :: "AuthEnv \<Rightarrow> DeviceAuthorizer \<Rightarrow> UsbDevice \<Rightarrow> bool" where
  "reachesCertificateCheck env a dev =
     (\<not> cachedAuthorization env a (addr dev) \<and>
      \<not> (autoAuthorizeKnownDevices (policy a) \<and> isKnownDevice dev) \<and>
      \<not> (enforceSystemPolicies (policy a) \<and> \<not> checkSystemPolicies (Some dev)) \<and>
      checkDeviceCertificates (policy a))"

text \<open>
  The level and the policy agree: at a level with a preset the active policy is that preset.
\<close>

definition policyFollowsLevel :: "SecurityManager \<Rightarrow> bool" where
  "policyFollowsLevel m =
     (case presetPolicy (currentLevel (state m)) of
        None \<Rightarrow> True
      | Some p \<Rightarrow> policy (authorizer m) = p)"

text \<open>
  \<open>appended r st st'\<close>: the history of \<open>st'\<close> is the history of \<open>st\<close> with \<open>r\<close> pushed at
  the back and the oldest entries beyond the cap evicted; the cap is kept.
\<close>

definition appended :: "AuthorizationResult \<Rightarrow> DeviceAuthState \<Rightarrow> DeviceAuthState \<Rightarrow> bool" where
  "appended r st st' =
     (history st' = drop (Suc (length (history st)) - maxHistorySize st) (history st @ [r]) \<and>
      maxHistorySize st' = maxHistorySize st)"

text \<open>
  \<open>stored a p out\<close>: the call that returned \<open>out\<close> from authorizer \<open>a\<close> changed only the
  state of the device at \<open>p\<close>, and appended the result it returned to that history.
\<close>

definition stored ::
  "DeviceAuthorizer \<Rightarrow> nat \<Rightarrow> AuthorizationResult \<times> DeviceAuthorizer \<times> AuthStep list \<Rightarrow> bool" where
  "stored a p out =
     (fst (snd out) = storeState a p (stateOf (fst (snd out)) p) \<and>
      appended (fst out) (stateOf a p) (stateOf (fst (snd out)) p))"

section \<open>BandwidthMonitor\<close>

definition BANDWIDTH_WINDOW :: int where
  "BANDWIDTH_WINDOW = 5000"

definition LIBUSB_ENDPOINT_IN :: "8 word" where
  "LIBUSB_ENDPOINT_IN = 0x80"

text \<open>A sample: the \<open>steady_clock\<close> time point and the cumulative byte count.\<close>

type_synonym sample = "time_point \<times> 64 word"

record TransferStats =
  readHistory :: "sample list"
  writeHistory :: "sample list"
  totalBytesRead :: "64 word"
  totalBytesWritten :: "64 word"

definition TransferStats_default :: TransferStats where
  "TransferStats_default =
     \<lparr>readHistory = [], writeHistory = [], totalBytesRead = 0, totalBytesWritten = 0\<rparr>"

record BandwidthStats =
  bytesRead :: "64 word"
  bytesWritten :: "64 word"
  readSpeed :: rat
  writeSpeed :: rat
  speedClass :: "8 word"

text \<open>
  \<open>BandwidthMonitor::Private\<close>: statistics and timers keyed by device address, and
  whether \<open>q_ptr\<close> is set (value-initialised to null, never assigned).
\<close>

record BandwidthMonitor =
  bw_deviceStats :: "nat \<rightharpoonup> TransferStats"
  bw_monitoringTimers :: "nat set"
  bw_q_ptr :: bool

definition BandwidthMonitor_new :: BandwidthMonitor where
  "BandwidthMonitor_new =
     \<lparr>bw_deviceStats = Map.empty, bw_monitoringTimers = {}, bw_q_ptr = False\<rparr>"

text \<open>
  The pruning loop of \<open>updateTransferStats\<close>: the front sample goes while it is more than
  \<open>BANDWIDTH_WINDOW\<close> whole milliseconds older than \<open>now\<close>.
\<close>

fun pruneWindow :: "time_point \<Rightarrow> sample list \<Rightarrow> sample list" where
  "pruneWindow now [] = []"
| "pruneWindow now (s # rest) =
     (if duration_cast_milliseconds (now - fst s) > BANDWIDTH_WINDOW
      then pruneWindow now rest
      else s # rest)"

definition updateTransferStats ::
  "sample list \<Rightarrow> 64 word \<Rightarrow> 16 word \<Rightarrow> time_point \<Rightarrow> sample list \<times> 64 word" where
  "updateTransferStats samples totalBytes maxPacketSize now =
     (let bytes = totalBytes + ucast maxPacketSize
      in (pruneWindow now (samples @ [(now, bytes)]), bytes))"

text \<open>
  \<open>calculateSpeed\<close>: the millisecond count is converted to \<open>double\<close> and divided by
  \<open>1000.0\<close>; the byte span is an unsigned 64-bit difference, converted to \<open>double\<close> for
  the division by the time span.
\<close>

definition calculateSpeed :: "sample list \<Rightarrow> rat" where
  "calculateSpeed samples =
     (if length samples < 2 then 0
      else
        let timeSpan = fl (fl (of_int (duration_cast_milliseconds
                                         (fst (last samples) - fst (hd samples)))) / 1000);
            byteSpan = snd (last samples) - snd (hd samples)
        in if timeSpan > 0 then fl (fl (of_nat (unat byteSpan)) / timeSpan) else 0)"

text \<open>The endpoints of a configuration in the order the three nested loops visit them.\<close>

definition allEndpoints :: "libusb_config_descriptor \<Rightarrow> libusb_endpoint_descriptor list" where
  "allEndpoints config =
     concat (map (\<lambda>i. concat (map endpoint (altsetting i))) (interface config))"

definition endpointActivity ::
  "time_point \<Rightarrow> libusb_endpoint_descriptor \<Rightarrow> TransferStats \<Rightarrow> TransferStats" where
  "endpointActivity now e stats =
     (if bEndpointAddress e AND LIBUSB_ENDPOINT_IN \<noteq> 0
      then case updateTransferStats (readHistory stats) (totalBytesRead stats)
                  (wMaxPacketSize e) now of
             (h, bytes) \<Rightarrow> stats\<lparr>readHistory := h, totalBytesRead := bytes\<rparr>
      else case updateTransferStats (writeHistory stats) (totalBytesWritten stats)
                  (wMaxPacketSize e) now of
             (h, bytes) \<Rightarrow> stats\<lparr>writeHistory := h, totalBytesWritten := bytes\<rparr>)"

datatype MonitorSignal =
  powerStatsUpdated nat "bool \<times> 16 word"
  | statsUpdated nat BandwidthStats

definition updateDeviceBandwidth ::
  "time_point \<Rightarrow> UsbDevice option \<Rightarrow> BandwidthMonitor \<Rightarrow> BandwidthMonitor \<times> MonitorSignal list" where
  "updateDeviceBandwidth now device bw =
     (case device of
        None \<Rightarrow> (bw, [])
      | Some dev \<Rightarrow>
          if \<not> isOpen dev then (bw, [])
          else
            let stats0 = (case bw_deviceStats bw (addr dev) of
                            None \<Rightarrow> TransferStats_default | Some st \<Rightarrow> st);
                stats = (case active_config dev of
                           None \<Rightarrow> stats0
                         | Some config \<Rightarrow> fold (endpointActivity now) (allEndpoints config) stats0);
                bwStats = \<lparr>bytesRead = totalBytesRead stats,
                           bytesWritten = totalBytesWritten stats,
                           readSpeed = calculateSpeed (readHistory stats),
                           writeSpeed = calculateSpeed (writeHistory stats),
                           speedClass = word_of_int (device_speed dev)\<rparr>
            in (bw\<lparr>bw_deviceStats := (bw_deviceStats bw)(addr dev \<mapsto> stats)\<rparr>,
                if bw_q_ptr bw then [statsUpdated (addr dev) bwStats] else []))"

text \<open>
  The timer of a device calls \<open>updateDeviceBandwidth\<close> when it times out; a device without
  a timer in \<open>monitoringTimers\<close> has no such call.
\<close>

definition bandwidthTimerTimeout ::
  "time_point \<Rightarrow> UsbDevice \<Rightarrow> BandwidthMonitor \<Rightarrow> BandwidthMonitor \<times> MonitorSignal list" where
  "bandwidthTimerTimeout now dev bw =
     (if addr dev \<in> bw_monitoringTimers bw then updateDeviceBandwidth now (Some dev) bw
      else (bw, []))"

definition BandwidthMonitor_startMonitoring ::
  "UsbDevice option \<Rightarrow> BandwidthMonitor \<Rightarrow> BandwidthMonitor" where
  "BandwidthMonitor_startMonitoring device bw =
     (case device of
        None \<Rightarrow> bw
      | Some dev \<Rightarrow>
          if addr dev \<in> bw_monitoringTimers bw then bw
          else bw\<lparr>bw_monitoringTimers := insert (addr dev) (bw_monitoringTimers bw),
                  bw_deviceStats := (bw_deviceStats bw)(addr dev \<mapsto> TransferStats_default)\<rparr>)"

definition BandwidthMonitor_stopMonitoring ::
  "UsbDevice option \<Rightarrow> BandwidthMonitor \<Rightarrow> BandwidthMonitor" where
  "BandwidthMonitor_stopMonitoring device bw =
     (case device of
        None \<Rightarrow> bw
      | Some dev \<Rightarrow>
          bw\<lparr>bw_monitoringTimers := bw_monitoringTimers bw - {addr dev},
             bw_deviceStats := (bw_deviceStats bw)(addr dev := None)\<rparr>)"

text \<open>
  The speed the specification states: the byte difference of the last and the first sample
  divided by the time between them, in seconds, for a window of two samples or more; 0
  otherwise.
\<close>

definition statedSpeed :: "sample list \<Rightarrow> rat" where
  "statedSpeed samples =
     (if 2 \<le> length samples
      then of_int (uint (snd (last samples)) - uint (snd (hd samples))) /
           (of_int (fst (last samples) - fst (hd samples)) / 1000000000)
      else 0)"

text \<open>A window is time-ordered when its time points do not decrease.\<close>

definition timeOrdered :: "sample list \<Rightarrow> bool" where
  "timeOrdered samples = sorted (map fst samples)"

text \<open>The whole milliseconds between the first and the last sample, and the byte span.\<close>

definition elapsedMs :: "sample list \<Rightarrow> int" where
  "elapsedMs samples = duration_cast_milliseconds (fst (last samples) - fst (hd samples))"

definition byteSpan :: "sample list \<Rightarrow> nat" where
  "byteSpan samples = unat (snd (last samples) - snd (hd samples))"

text \<open>
  The window after \<open>n\<close> ticks 100 ms apart, the first at time 0, of one endpoint with
  \<open>wMaxPacketSize = 4096\<close>.
\<close>

fun example_window :: "nat \<Rightarrow> sample list \<times> 64 word" where
  "example_window 0 = ([], 0)"
| "example_window (Suc n) =
     (case example_window n of
        (samples, bytes) \<Rightarrow> updateTransferStats samples bytes 4096 (int n * 100000000))"

section \<open>PowerManager\<close>

text \<open>
  The statistics a sample computes from the descriptors: \<open>selfPowered\<close> and \<open>maxPower\<close>;
  the three \<open>double\<close> members stay at their zero initialisation and are left out.
\<close>

record PowerManager =
  power_deviceStats :: "nat \<rightharpoonup> bool \<times> 16 word"
  power_monitoringTimers :: "nat set"

definition PowerManager_new :: PowerManager where
  "PowerManager_new = \<lparr>power_deviceStats = Map.empty, power_monitoringTimers = {}\<rparr>"

definition updateDevicePower ::
  "UsbDevice option \<Rightarrow> PowerManager \<Rightarrow> PowerManager \<times> MonitorSignal list" where
  "updateDevicePower device pm =
     (case device of
        None \<Rightarrow> (pm, [])
      | Some dev \<Rightarrow>
          if \<not> isOpen dev then (pm, [])
          else
            let stats = (case active_config dev of
                           None \<Rightarrow> (False, 0)
                         | Some config \<Rightarrow>
                             (bmAttributes config AND 0x40 \<noteq> 0, ucast (MaxPower config) * 2))
            in (pm\<lparr>power_deviceStats := (power_deviceStats pm)(addr dev \<mapsto> stats)\<rparr>,
                [powerStatsUpdated (addr dev) stats]))"

definition powerTimerTimeout ::
  "UsbDevice \<Rightarrow> PowerManager \<Rightarrow> PowerManager \<times> MonitorSignal list" where
  "powerTimerTimeout dev pm =
     (if addr dev \<in> power_monitoringTimers pm then updateDevicePower (Some dev) pm
      else (pm, []))"

definition PowerManager_startMonitoring ::
  "UsbDevice option \<Rightarrow> PowerManager \<Rightarrow> PowerManager \<times> MonitorSignal list" where
  "PowerManager_startMonitoring device pm =
     (case device of
        None \<Rightarrow> (pm, [])
      | Some dev \<Rightarrow>
          if addr dev \<in> power_monitoringTimers pm then (pm, [])
          else updateDevicePower device
                 (pm\<lparr>power_monitoringTimers := insert (addr dev) (power_monitoringTimers pm)\<rparr>))"

definition PowerManager_stopMonitoring :: "UsbDevice option \<Rightarrow> PowerManager \<Rightarrow> PowerManager" where
  "PowerManager_stopMonitoring device pm =
     (case device of
        None \<Rightarrow> pm
      | Some dev \<Rightarrow>
          pm\<lparr>power_monitoringTimers := power_monitoringTimers pm - {addr dev},
             power_deviceStats := (power_deviceStats pm)(addr dev := None)\<rparr>)"

section \<open>DeviceManager\<close>

text \<open>
  What libusb answers for a native device: bus number, address, and the vendor and product
  of its device descriptor (\<open>None\<close> when \<open>libusb_get_device_descriptor\<close> fails).
\<close>

record libusb_device =
  bus_number :: "8 word"
  device_address :: "8 word"
  device_descriptor :: "(16 word \<times> 16 word) option"

definition getDeviceIdentifier :: "libusb_device \<Rightarrow> string" where
  "getDeviceIdentifier device =
     (let (idVendor, idProduct) = (case device_descriptor device of
                                     None \<Rightarrow> (0, 0) | Some d \<Rightarrow> d)
      in hex_upper 4 (unat idVendor) @ '':'' @ hex_upper 4 (unat idProduct) @ '':'' @
         hex_upper 2 (unat (bus_number device)) @ '':'' @
         hex_upper 2 (unat (device_address device)))"

record DeviceManager =
  devices :: "string \<rightharpoonup> UsbDevice"
  powerMgr :: PowerManager
  bwMonitor :: BandwidthMonitor

definition DeviceManager_new :: DeviceManager where
  "DeviceManager_new =
     \<lparr>devices = Map.empty, powerMgr = PowerManager_new, bwMonitor = BandwidthMonitor_new\<rparr>"

text \<open>
  What an operation of the manager does, in the order of its statements: the changes of
  the registry, the calls into the monitors, and the signals it emits.
\<close>

datatype ManagerEffect =
  RegistryInserted string
  | RegistryErased string
  | PowerMonitoringStarted nat
  | BandwidthMonitoringStarted nat
  | PowerMonitoringStopped nat
  | BandwidthMonitoringStopped nat
  | MonitorSignalled MonitorSignal
  | deviceAdded nat
  | deviceRemoved nat

text \<open>
  \<open>handleDeviceArrival\<close> and \<open>handleDeviceRemoval\<close> take \<open>devicesMutex\<close>;
  \<open>devicesMutexHeld\<close> tells whether the caller holds it. The hot-plug callback calls them
  without the mutex; \<open>pollDevices\<close> calls them inside its own \<open>lock_guard\<close> on it.

  \<open>handleDeviceArrival\<close>: the registry is read under the lock, the monitors are started
  without it, and the entry is inserted under the lock again; \<open>usbDevice\<close> is the object
  \<open>std::make_shared<UsbDevice>\<close> creates.
\<close>

definition handleDeviceArrival ::
  "bool \<Rightarrow> libusb_device \<Rightarrow> UsbDevice \<Rightarrow> DeviceManager \<Rightarrow>
   (DeviceManager \<times> ManagerEffect list) option" where
  "handleDeviceArrival devicesMutexHeld device usbDevice dm =
     (let id = getDeviceIdentifier device in
      lock_guard devicesMutexHeld
        (if devices dm id \<noteq> None then Some (dm, [])
         else
           case PowerManager_startMonitoring (Some usbDevice) (powerMgr dm) of
             (pm, sigs) \<Rightarrow>
               lock_guard devicesMutexHeld
                 (Some (dm\<lparr>powerMgr := pm,
                           bwMonitor := BandwidthMonitor_startMonitoring (Some usbDevice)
                                          (bwMonitor dm),
                           devices := (devices dm)(id \<mapsto> usbDevice)\<rparr>,
                        [PowerMonitoringStarted (addr usbDevice)] @ map MonitorSignalled sigs @
                        [BandwidthMonitoringStarted (addr usbDevice), RegistryInserted id,
                         deviceAdded (addr usbDevice)]))))"

text \<open>
  \<open>handleDeviceRemoval\<close>: under the lock the entry is copied to \<open>removedDevice\<close> and erased;
  with a non-null \<open>removedDevice\<close> the two monitors are stopped and \<open>deviceRemoved\<close> is
  emitted.
\<close>

definition handleDeviceRemoval ::
  "bool \<Rightarrow> libusb_device \<Rightarrow> DeviceManager \<Rightarrow> (DeviceManager \<times> ManagerEffect list) option" where
  "handleDeviceRemoval devicesMutexHeld device dm =
     (let id = getDeviceIdentifier device in
      lock_guard devicesMutexHeld
        (case devices dm id of
           None \<Rightarrow> Some (dm, [])
         | Some removedDevice \<Rightarrow>
             let dm1 = dm\<lparr>devices := (devices dm)(id := None)\<rparr>;
                 dm2 = dm1\<lparr>powerMgr := PowerManager_stopMonitoring (Some removedDevice) (powerMgr dm1)\<rparr>;
                 dm3 = dm2\<lparr>bwMonitor :=
                             BandwidthMonitor_stopMonitoring (Some removedDevice) (bwMonitor dm2)\<rparr>
             in Some (dm3, [RegistryErased id, PowerMonitoringStopped (addr removedDevice),
                            BandwidthMonitoringStopped (addr removedDevice),
                            deviceRemoved (addr removedDevice)])))"

text \<open>\<open>precedes a b xs\<close>: \<open>a\<close> occurs in \<open>xs\<close> before the first \<open>b\<close>.\<close>

definition precedes :: "'a \<Rightarrow> 'a \<Rightarrow> 'a list \<Rightarrow> bool" where
  "precedes a b xs = (a \<in> set (takeWhile (\<lambda>x. x \<noteq> b) xs))"

text \<open>
  The timers of the two monitors fire on the event loop; a tick is the timeout of one of
  them for a device, and a run of ticks collects the signals they emit.
\<close>

datatype MonitorTick = PowerTick UsbDevice | BandwidthTick time_point UsbDevice

fun monitorTick ::
  "MonitorTick \<Rightarrow> PowerManager \<times> BandwidthMonitor \<Rightarrow>
   (PowerManager \<times> BandwidthMonitor) \<times> MonitorSignal list" where
  "monitorTick (PowerTick dev) (pm, bw) =
     (case powerTimerTimeout dev pm of (pm', sigs) \<Rightarrow> ((pm', bw), sigs))"
| "monitorTick (BandwidthTick now dev) (pm, bw) =
     (case bandwidthTimerTimeout now dev bw of (bw', sigs) \<Rightarrow> ((pm, bw'), sigs))"

fun monitorTicks ::
  "MonitorTick list \<Rightarrow> PowerManager \<times> BandwidthMonitor \<Rightarrow>
   (PowerManager \<times> BandwidthMonitor) \<times> MonitorSignal list" where
  "monitorTicks [] s = (s, [])"
| "monitorTicks (t # ts) s =
     (case monitorTick t s of
        (s1, sigs1) \<Rightarrow> (case monitorTicks ts s1 of (s2, sigs2) \<Rightarrow> (s2, sigs1 @ sigs2)))"

fun signalDevice :: "MonitorSignal \<Rightarrow> nat" where
  "signalDevice (powerStatsUpdated a stats) = a"
| "signalDevice (statsUpdated a stats) = a"

text \<open>
  Neither monitor holds a timer or statistics for the device at address \<open>a\<close>.
\<close>

definition silentFor :: "nat \<Rightarrow> PowerManager \<times> BandwidthMonitor \<Rightarrow> bool" where
  "silentFor a s \<longleftrightarrow>
     a \<notin> power_monitoringTimers (fst s) \<and> a \<notin> bw_monitoringTimers (snd s) \<and>
     power_deviceStats (fst s) a = None \<and> bw_deviceStats (snd s) a = None"

section \<open>ProtocolAnalyzer\<close>

record TransferRecord =
  tr_timestamp :: time_point
  endpointAddress :: "8 word"
  data :: "8 word list"
  isInput :: bool
  status :: int

text \<open>
  \<open>ProtocolAnalyzer::Private\<close>: the histories, keyed by device address, the devices that
  have a monitoring timer, the cap (member initialiser 1000), and whether \<open>q_ptr\<close> is
  set: \<open>std::make_unique<Private>()\<close> value-initialises it to null and the constructor
  does not assign it.
\<close>

record ProtocolAnalyzer =
  transferHistory :: "nat \<rightharpoonup> TransferRecord list"
  analyzerTimers :: "nat set"
  analyzer_maxHistorySize :: nat
  analyzer_q_ptr :: bool

definition ProtocolAnalyzer_new :: ProtocolAnalyzer where
  "ProtocolAnalyzer_new =
     \<lparr>transferHistory = Map.empty, analyzerTimers = {}, analyzer_maxHistorySize = 1000,
      analyzer_q_ptr = False\<rparr>"

text \<open>\<open>transferHistory[device]\<close>: the history, empty when the device has none yet.\<close>

definition historyOf :: "ProtocolAnalyzer \<Rightarrow> nat \<Rightarrow> TransferRecord list" where
  "historyOf pa device = (case transferHistory pa device of None \<Rightarrow> [] | Some h \<Rightarrow> h)"

definition recordTransfer ::
  "time_point \<Rightarrow> nat \<Rightarrow> 8 word \<Rightarrow> 8 word list \<Rightarrow> bool \<Rightarrow> int \<Rightarrow> ProtocolAnalyzer \<Rightarrow> ProtocolAnalyzer" where
  "recordTransfer now device ep d inp st pa =
     (let record = \<lparr>tr_timestamp = now, endpointAddress = ep, data = d, isInput = inp, status = st\<rparr>
      in pa\<lparr>transferHistory := (transferHistory pa)(device \<mapsto>
            pop_front_while_over (analyzer_maxHistorySize pa) (historyOf pa device @ [record]))\<rparr>)"

definition setMaxHistorySize :: "nat \<Rightarrow> ProtocolAnalyzer \<Rightarrow> ProtocolAnalyzer" where
  "setMaxHistorySize n pa =
     pa\<lparr>analyzer_maxHistorySize := n,
        transferHistory := (\<lambda>device. map_option (pop_front_while_over n)
                                        (transferHistory pa device))\<rparr>"

text \<open>Sequences of the two operations, and the records a sequence appends for a device.\<close>

datatype AnalyzerOp =
  RecordTransfer time_point nat "8 word" "8 word list" bool int
  | SetMaxHistorySize nat

fun applyOp :: "AnalyzerOp \<Rightarrow> ProtocolAnalyzer \<Rightarrow> ProtocolAnalyzer" where
  "applyOp (RecordTransfer now device ep d inp st) pa = recordTransfer now device ep d inp st pa"
| "applyOp (SetMaxHistorySize n) pa = setMaxHistorySize n pa"

fun runOps :: "AnalyzerOp list \<Rightarrow> ProtocolAnalyzer \<Rightarrow> ProtocolAnalyzer" where
  "runOps [] pa = pa"
| "runOps (op # ops) pa = runOps ops (applyOp op pa)"

fun recorded :: "nat \<Rightarrow> AnalyzerOp list \<Rightarrow> TransferRecord list" where
  "recorded device [] = []"
| "recorded device (RecordTransfer now device' ep d inp st # ops) =
     (if device' = device
      then \<lparr>tr_timestamp = now, endpointAddress = ep, data = d, isInput = inp, status = st\<rparr> #
           recorded device ops
      else recorded device ops)"
| "recorded device (SetMaxHistorySize n # ops) = recorded device ops"

definition recordOp :: "nat \<Rightarrow> TransferRecord \<Rightarrow> AnalyzerOp" where
  "recordOp device r =
     RecordTransfer (tr_timestamp r) device (endpointAddress r) (data r) (isInput r) (status r)"

text \<open>\<open>keepLast n xs\<close>: the last \<open>n\<close> elements of \<open>xs\<close> (all of them when there are fewer).\<close>

definition keepLast :: "nat \<Rightarrow> 'a list \<Rightarrow> 'a list" where
  "keepLast n xs = drop (length xs - n) xs"

subsection \<open>Pattern analysis\<close>

record ProtocolPattern =
  pattern_timestamp :: time_point
  pattern_device :: nat
  primaryEndpoint :: "8 word option"
  hasRegularTransferSizes :: bool
  problematicEndpoints :: "8 word list"

text \<open>
  A \<open>std::map<uint8_t, T>\<close> is a partial map on bytes; iteration visits the keys in
  ascending order, and \<open>operator[]\<close> reads a missing key as the value-initialised \<open>T\<close>.
\<close>

definition byte_keys :: "(8 word \<rightharpoonup> 'a) \<Rightarrow> 8 word list" where
  "byte_keys m = filter (\<lambda>k. m k \<noteq> None) (map of_nat [0..<256])"

definition at_or_zero :: "(8 word \<rightharpoonup> 'a::zero) \<Rightarrow> 8 word \<Rightarrow> 'a" where
  "at_or_zero m k = (case m k of None \<Rightarrow> 0 | Some v \<Rightarrow> v)"

record TransferStatistics =
  endpointFrequency :: "8 word \<rightharpoonup> nat"
  averageTransferSize :: "8 word \<rightharpoonup> rat"
  errorCount :: "8 word \<rightharpoonup> int"

definition TransferStatistics_empty :: TransferStatistics where
  "TransferStatistics_empty =
     \<lparr>endpointFrequency = Map.empty, averageTransferSize = Map.empty, errorCount = Map.empty\<rparr>"

text \<open>The body of the loop over the history records.\<close>

definition tally :: "TransferRecord \<Rightarrow> TransferStatistics \<Rightarrow> TransferStatistics" where
  "tally r s =
     (let ep = endpointAddress r
      in \<lparr>endpointFrequency =
            (endpointFrequency s)(ep \<mapsto> at_or_zero (endpointFrequency s) ep + 1),
          averageTransferSize =
            (averageTransferSize s)(ep \<mapsto>
               fl (at_or_zero (averageTransferSize s) ep + fl (of_nat (length (data r))))),
          errorCount =
            (if status r \<noteq> 0
             then (errorCount s)(ep \<mapsto> at_or_zero (errorCount s) ep + 1)
             else errorCount s)\<rparr>)"

text \<open>\<open>pair.second /= endpointFrequency[pair.first]\<close> for every entry of the size map.\<close>

definition normalizeSizes :: "TransferStatistics \<Rightarrow> 8 word \<rightharpoonup> rat" where
  "normalizeSizes s =
     (\<lambda>k. map_option (\<lambda>total. fl (total / fl (of_nat (at_or_zero (endpointFrequency s) k))))
            (averageTransferSize s k))"

text \<open>\<open>std::max_element\<close> with the comparison \<open>a.second < b.second\<close>: the first largest.\<close>

fun max_element :: "('k \<times> nat) list \<Rightarrow> ('k \<times> nat) option" where
  "max_element [] = None"
| "max_element (x # xs) =
     Some (fold (\<lambda>y largest. if snd largest < snd y then y else largest) xs x)"

text \<open>
  The loop that judges the sizes regular: \<open>firstSize\<close> starts at 0 and takes the first
  non-zero average; a later average further than 1.0 from it ends the loop with \<open>false\<close>.
\<close>

fun regularSizes :: "rat \<Rightarrow> rat list \<Rightarrow> bool" where
  "regularSizes firstSize [] = True"
| "regularSizes firstSize (avg # rest) =
     (if firstSize = 0 then regularSizes avg rest
      else if \<bar>fl (avg - firstSize)\<bar> > 1 then False
      else regularSizes firstSize rest)"

text \<open>
  \<open>static_cast<double>(pair.second) / endpointFrequency[pair.first]\<close>, and its comparison
  with the literal \<open>0.1\<close>.
\<close>

definition errorRate :: "TransferStatistics \<Rightarrow> 8 word \<Rightarrow> rat" where
  "errorRate s k =
     fl (fl (of_int (at_or_zero (errorCount s) k)) /
         fl (of_nat (at_or_zero (endpointFrequency s) k)))"

definition analyzeTransferPatterns ::
  "time_point \<Rightarrow> nat \<Rightarrow> ProtocolAnalyzer \<Rightarrow> ProtocolPattern option" where
  "analyzeTransferPatterns now device pa =
     (case transferHistory pa device of
        None \<Rightarrow> None
      | Some h \<Rightarrow>
          if h = [] then None
          else
            let s = fold tally h TransferStatistics_empty;
                sizes = normalizeSizes s
            in Some
                 \<lparr>pattern_timestamp = now,
                  pattern_device = device,
                  primaryEndpoint =
                    map_option fst
                      (max_element (map (\<lambda>k. (k, at_or_zero (endpointFrequency s) k))
                                        (byte_keys (endpointFrequency s)))),
                  hasRegularTransferSizes =
                    regularSizes 0 (map (at_or_zero sizes) (byte_keys sizes)),
                  problematicEndpoints =
                    filter (\<lambda>k. errorRate s k > fl (1 / 10)) (byte_keys (errorCount s))\<rparr>)"

text \<open>
  The signals of an evaluation: \<open>protocolPatternDetected\<close>, emitted when \<open>q_ptr\<close> is set.
\<close>

definition patternSignals :: "time_point \<Rightarrow> nat \<Rightarrow> ProtocolAnalyzer \<Rightarrow> ProtocolPattern list" where
  "patternSignals now device pa =
     (case analyzeTransferPatterns now device pa of
        None \<Rightarrow> []
      | Some pattern \<Rightarrow> if analyzer_q_ptr pa then [pattern] else [])"

text \<open>The counts the specification speaks of: transfers and failed transfers of an endpoint.\<close>

definition transfersOn :: "TransferRecord list \<Rightarrow> 8 word \<Rightarrow> nat" where
  "transfersOn h ep = length (filter (\<lambda>r. endpointAddress r = ep) h)"

definition failuresOn :: "TransferRecord list \<Rightarrow> 8 word \<Rightarrow> nat" where
  "failuresOn h ep = length (filter (\<lambda>r. endpointAddress r = ep \<and> status r \<noteq> 0) h)"

text \<open>
  \<open>historiesFifo pa R\<close>: every history of \<open>pa\<close> is within the cap and consists of the
  most recent of the records \<open>R device\<close> appended for its device, oldest first.
\<close>

definition historiesFifo :: "ProtocolAnalyzer \<Rightarrow> (nat \<Rightarrow> TransferRecord list) \<Rightarrow> bool" where
  "historiesFifo pa R =
     (\<forall>device. length (historyOf pa device) \<le> analyzer_maxHistorySize pa \<and>
               historyOf pa device = keepLast (length (historyOf pa device)) (R device))"

subsection \<open>Example data\<close>

definition example_device :: "16 word \<Rightarrow> 16 word \<Rightarrow> 8 word \<Rightarrow> UsbDevice" where
  "example_device v p c =
     \<lparr>addr = 1,
      dev_identifier = \<lparr>vendorId = v, productId = p, busNumber = 1, deviceAddress = 2\<rparr>,
      bDeviceClass = c, isOpened = True, device_speed = 3, active_config = None\<rparr>"

definition example_env :: "time_point \<Rightarrow> AuthEnv" where
  "example_env t = \<lparr>now_expiry = t, now_attempt = t, now_result = t, userAccepts = True\<rparr>"

definition example_rule :: "bool \<Rightarrow> string list \<Rightarrow> SecurityRule" where
  "example_rule w ifs =
     \<lparr>rule_vendorId = 0x1234, rule_productId = 0x5678, isWhitelisted = w,
      requireAuthorization = False, rule_securityLevel = Medium,
      allowedInterfaces = ifs, expiryDate = 0\<rparr>"

text \<open>
  A configuration with one interface, one alternate setting of class \<open>c\<close> and one IN
  endpoint with attributes \<open>a\<close>.
\<close>

definition example_config :: "8 word \<Rightarrow> 8 word \<Rightarrow> libusb_config_descriptor" where
  "example_config c a =
     \<lparr>interface =
        [\<lparr>altsetting =
            [\<lparr>bInterfaceClass = c,
              endpoint = [\<lparr>bEndpointAddress = 0x81, ep_bmAttributes = a,
                           wMaxPacketSize = 8\<rparr>]\<rparr>]\<rparr>],
      bmAttributes = 0x80, MaxPower = 50\<rparr>"

definition example_manager :: SecurityManager where
  "example_manager = fst (addSecurityRule (example_rule True [''0x03'']) SecurityManager_new)"

text \<open>The device 1234:5678, open, with one interface of class \<open>c\<close>.\<close>

definition example_open_device :: "8 word \<Rightarrow> UsbDevice" where
  "example_open_device c =
     (example_device 0x1234 0x5678 0x00)\<lparr>active_config := Some (example_config c 0x02)\<rparr>"

text \<open>The \<open>n\<close>-th of a series of transfers on endpoint 0x81, stamped \<open>n\<close>.\<close>

definition example_record :: "nat \<Rightarrow> TransferRecord" where
  "example_record n =
     \<lparr>tr_timestamp = int n, endpointAddress = 0x81, data = [], isInput = True, status = 0\<rparr>"

text \<open>
  A history of 100 transfers on endpoint 0x81, the first \<open>n\<close> of them failed (status -1),
  held for device 7 by an otherwise fresh analyzer.
\<close>

definition example_history :: "nat \<Rightarrow> TransferRecord list" where
  "example_history n =
     replicate n ((example_record 0)\<lparr>status := - 1\<rparr>) @ replicate (100 - n) (example_record 0)"

definition example_analyzer :: "nat \<Rightarrow> ProtocolAnalyzer" where
  "example_analyzer n = ProtocolAnalyzer_new\<lparr>transferHistory := [7 \<mapsto> example_history n]\<rparr>"

text \<open>A keyboard (class HID) authorised once at tick 1000 by a fresh authorizer.\<close>

definition example_authorized_once :: DeviceAuthorizer where
  "example_authorized_once =
     (case authorizeDevice (example_env 1000) (Some (example_device 0x046D 0xC31C 0x03))
             DeviceAuthorizer_new of
        None \<Rightarrow> DeviceAuthorizer_new
      | Some (r, a, steps) \<Rightarrow> a)"

text \<open>
  A native device on bus 1, address 2, and the manager after its arrival by the hot-plug
  callback, the \<open>UsbDevice\<close> made for it being the open example device.
\<close>

definition example_native_device :: libusb_device where
  "example_native_device =
     \<lparr>bus_number = 1, device_address = 2, device_descriptor = Some (0x1234, 0x5678)\<rparr>"

definition example_registry :: DeviceManager where
  "example_registry =
     (case handleDeviceArrival False example_native_device (example_open_device 0x03)
             DeviceManager_new of
        None \<Rightarrow> DeviceManager_new
      | Some (dm, effects) \<Rightarrow> dm)"

section \<open>Properties\<close>

subsection \<open>Double-precision arithmetic\<close>

lemma bit_length_bounds:
  "0 < n \<Longrightarrow> 2 ^ (bit_length n - 1) \<le> n \<and> n < 2 ^ bit_length n"
proof (induction n rule: bit_length.induct)
  case (1 n)
  show ?case
  proof (cases "n div 2 = 0")
    case True
    with "1.prems" have "n = 1" by (simp add: div_eq_0_iff)
    then show ?thesis by (simp add: bit_length.simps)
  next
    case False
    then have pos: "0 < n div 2" by simp
    from "1.IH" [OF _ pos] "1.prems"
    have lo: "2 ^ (bit_length (n div 2) - 1) \<le> n div 2" and hi: "n div 2 < 2 ^ bit_length (n div 2)"
      by simp_all
    have bl: "bit_length n = Suc (bit_length (n div 2))"
      using "1.prems" by (subst bit_length.simps) simp
    have blpos: "0 < bit_length (n div 2)"
      using pos by (subst bit_length.simps) simp
    then obtain k where k: "bit_length (n div 2) = Suc k" by (cases "bit_length (n div 2)") auto
    from lo k have "2 * 2 ^ k \<le> 2 * (n div 2)" by simp
    also have "\<dots> \<le> n" by simp
    finally have a: "2 ^ (bit_length n - 1) \<le> n" by (simp add: bl k)
    from hi have "Suc (n div 2) \<le> 2 ^ bit_length (n div 2)" by simp
    then have "2 * Suc (n div 2) \<le> 2 * 2 ^ bit_length (n div 2)" by (rule mult_le_mono2)
    moreover have "n < 2 * Suc (n div 2)" by simp
    ultimately have b: "n < 2 ^ bit_length n" by (simp add: bl)
    from a b show ?thesis ..
  qed
qed

lemma ilog2_bounds:
  assumes "0 < x"
  shows "2 powi ilog2 x \<le> x" and "x < 2 powi (ilog2 x + 1)"
proof -
  have "2 powi ilog2 x \<le> x \<and> x < 2 powi (ilog2 x + 1)"
  proof (cases "1 \<le> x")
    case True
    let ?n = "nat \<lfloor>x\<rfloor>"
    from True have fl1: "1 \<le> \<lfloor>x\<rfloor>" by simp
    then have npos: "0 < ?n" by simp
    from bit_length_bounds [OF npos]
    have lo: "2 ^ (bit_length ?n - 1) \<le> ?n" and hi: "?n < 2 ^ bit_length ?n" by simp_all
    have blpos: "0 < bit_length ?n" using npos by (subst bit_length.simps) simp
    have il: "ilog2 x = int (bit_length ?n - 1)"
      using True blpos by (simp add: ilog2_def)
    have il1: "ilog2 x + 1 = int (bit_length ?n)"
      using blpos by (simp add: il)
    from lo have "(2::rat) ^ (bit_length ?n - 1) \<le> of_nat ?n"
      by (metis of_nat_le_iff of_nat_numeral of_nat_power)
    also have "(of_nat ?n :: rat) = of_int \<lfloor>x\<rfloor>" using fl1 by simp
    also have "\<dots> \<le> x" by simp
    finally have a: "2 powi ilog2 x \<le> x" by (simp add: il)
    from hi have "int ?n + 1 \<le> 2 ^ bit_length ?n"
      by (metis Suc_leI of_nat_Suc of_nat_le_iff of_nat_numeral of_nat_power add.commute plus_1_eq_Suc)
    then have "\<lfloor>x\<rfloor> + 1 \<le> 2 ^ bit_length ?n" using fl1 by simp
    then have "(of_int (\<lfloor>x\<rfloor> + 1) :: rat) \<le> of_int (2 ^ bit_length ?n)"
      by (simp only: of_int_le_iff)
    then have "(of_int \<lfloor>x\<rfloor> :: rat) + 1 \<le> 2 ^ bit_length ?n" by simp
    moreover have "x < of_int \<lfloor>x\<rfloor> + 1" by linarith
    ultimately have b: "x < 2 powi (ilog2 x + 1)" by (simp add: il1)
    from a b show ?thesis ..
  next
    case False
    then have x1: "x < 1" by simp
    define y where "y = 1 / x"
    define N where "N = \<lceil>y\<rceil>"
    define n where "n = nat (N - 1)"
    from assms x1 have y1: "1 < y" by (simp add: y_def)
    have yN: "y \<le> of_int N" unfolding N_def by (rule le_of_int_ceiling)
    have Ny: "of_int N - 1 < y" unfolding N_def by linarith
    from y1 yN have "(1::rat) < of_int N" by (rule less_le_trans)
    then have N2: "2 \<le> N" by linarith
    then have npos: "0 < n" unfolding n_def by linarith
    have nN: "int n = N - 1" unfolding n_def using N2 by linarith
    from bit_length_bounds [OF npos]
    have lo: "2 ^ (bit_length n - 1) \<le> n" and hi: "n < 2 ^ bit_length n" by simp_all
    have blpos: "0 < bit_length n" using npos by (subst bit_length.simps) simp
    then obtain k where k: "bit_length n = Suc k" by (cases "bit_length n") auto
    have il: "ilog2 x = - int (Suc k)"
      using False k by (simp add: ilog2_def n_def N_def y_def)
    from lo k have "2 ^ k \<le> n" by simp
    then have "int (2 ^ k) \<le> int n" by (simp only: of_nat_le_iff)
    then have "2 ^ k \<le> N - 1" by (simp add: nN)
    then have "(of_int (2 ^ k) :: rat) \<le> of_int (N - 1)" by (simp only: of_int_le_iff)
    with Ny have ylo: "2 ^ k < y" by simp
    from hi k have "Suc n \<le> 2 ^ Suc k" by simp
    then have "int (Suc n) \<le> int (2 ^ Suc k)" by (simp only: of_nat_le_iff)
    then have "N \<le> 2 ^ Suc k" using nN by simp
    then have "(of_int N :: rat) \<le> of_int (2 ^ Suc k)" by (simp only: of_int_le_iff)
    with yN have yhi: "y \<le> 2 ^ Suc k" by simp
    have p: "(0::rat) < 2 ^ Suc k" "(0::rat) < 2 ^ k" by simp_all
    from yhi assms p(1) have a: "1 / 2 ^ Suc k \<le> x"
      unfolding y_def by (simp add: field_simps)
    from ylo assms p(2) have b: "x < 1 / 2 ^ k"
      unfolding y_def by (simp add: field_simps)
    have e1: "(2::rat) powi ilog2 x = 1 / 2 ^ Suc k"
      by (simp only: il power_int_minus_divide power_int_of_nat)
    have e2: "(2::rat) powi (ilog2 x + 1) = 1 / 2 ^ k"
    proof -
      have "ilog2 x + 1 = - int k" by (simp add: il)
      then show ?thesis by (simp only: power_int_minus_divide power_int_of_nat)
    qed
    from a b show ?thesis by (simp only: e1 e2)
  qed
  then show "2 powi ilog2 x \<le> x" and "x < 2 powi (ilog2 x + 1)" by blast+
qed

lemma ilog2_unique:
  assumes "0 < x" and lo: "2 powi e \<le> x" and hi: "x < 2 powi (e + 1)"
  shows "ilog2 x = e"
proof (rule ccontr)
  assume ne: "ilog2 x \<noteq> e"
  note b = ilog2_bounds [OF assms(1)]
  show False
  proof (cases "ilog2 x < e")
    case True
    then have "ilog2 x + 1 \<le> e" by simp
    then have "(2::rat) powi (ilog2 x + 1) \<le> 2 powi e"
      by (rule power_int_increasing) simp
    with b(2) lo show False by linarith
  next
    case False
    with ne have "e + 1 \<le> ilog2 x" by simp
    then have "(2::rat) powi (e + 1) \<le> 2 powi ilog2 x"
      by (rule power_int_increasing) simp
    with b(1) hi show False by linarith
  qed
qed

lemma ilog2_mono:
  assumes "0 < x" and "x \<le> y"
  shows "ilog2 x \<le> ilog2 y"
proof (rule ccontr)
  assume "\<not> ilog2 x \<le> ilog2 y"
  then have "ilog2 y + 1 \<le> ilog2 x" by simp
  then have "(2::rat) powi (ilog2 y + 1) \<le> 2 powi ilog2 x"
    by (rule power_int_increasing) simp
  moreover from assms have "0 < y" by simp
  note ilog2_bounds(2) [OF this] ilog2_bounds(1) [OF assms(1)]
  ultimately show False using assms(2) by linarith
qed

lemma round_half_even_cases:
  "round_half_even y = \<lfloor>y\<rfloor> \<or> round_half_even y = \<lfloor>y\<rfloor> + 1"
  by (simp add: round_half_even_def Let_def)

lemma round_half_even_of_int [simp]: "round_half_even (of_int m) = m"
  by (simp add: round_half_even_def Let_def)

lemma round_half_even_ge: "of_int m \<le> y \<Longrightarrow> m \<le> round_half_even y"
proof -
  assume "of_int m \<le> y"
  then have "m \<le> \<lfloor>y\<rfloor>" by (simp add: le_floor_iff)
  with round_half_even_cases [of y] show ?thesis by linarith
qed

lemma round_half_even_le: "y \<le> of_int m \<Longrightarrow> round_half_even y \<le> m"
proof (cases "y = of_int m")
  case True
  then show ?thesis by simp
next
  case False
  assume "y \<le> of_int m"
  with False have "y < of_int m" by simp
  then have "\<lfloor>y\<rfloor> < m" by (simp add: floor_less_iff)
  with round_half_even_cases [of y] show ?thesis by linarith
qed

lemma round_half_even_error: "\<bar>of_int (round_half_even y) - y\<bar> \<le> 1 / 2"
proof -
  have "of_int \<lfloor>y\<rfloor> \<le> y" "y < of_int \<lfloor>y\<rfloor> + 1" by linarith+
  then show ?thesis
    by (auto simp: round_half_even_def Let_def abs_le_iff)
qed

lemma round_half_even_near:
  assumes "\<bar>y - of_int m\<bar> < 1 / 2"
  shows "round_half_even y = m"
proof -
  from round_half_even_error [of y] assms
  have "\<bar>(of_int (round_half_even y) :: rat) - of_int m\<bar> < 1" by linarith
  then have "\<bar>(of_int (round_half_even y - m) :: rat)\<bar> < 1" by simp
  then have "\<bar>round_half_even y - m\<bar> < 1"
    by (metis of_int_abs of_int_less_1_iff)
  then show ?thesis by linarith
qed

text \<open>The scaled significand of a positive number lies in the 53-bit range.\<close>

lemma significand_range:
  assumes "0 < x"
  shows "2 ^ 52 \<le> x / 2 powi (ilog2 x - 52)" and "x / 2 powi (ilog2 x - 52) < 2 ^ 53"
proof -
  have p: "(0::rat) < 2 powi (ilog2 x - 52)" by simp
  have a: "(2::rat) ^ 52 * 2 powi (ilog2 x - 52) = 2 powi ilog2 x"
    by (simp add: power_int_diff)
  have b: "(2::rat) ^ 53 * 2 powi (ilog2 x - 52) = 2 powi (ilog2 x + 1)"
    by (simp add: power_int_diff power_int_add)
  from ilog2_bounds(1) [OF assms] a have "2 ^ 52 * 2 powi (ilog2 x - 52) \<le> x" by simp
  then show "2 ^ 52 \<le> x / 2 powi (ilog2 x - 52)"
    using p by (simp add: pos_le_divide_eq)
  from ilog2_bounds(2) [OF assms] b have "x < 2 ^ 53 * 2 powi (ilog2 x - 52)" by simp
  then show "x / 2 powi (ilog2 x - 52) < 2 ^ 53"
    using p by (simp add: pos_divide_less_eq)
qed

text \<open>
  A representable number: a 53-bit significand \<open>m\<close> scaled by a power of two.
\<close>

lemma ilog2_representable:
  assumes m: "2 ^ 52 \<le> m" "m < 2 ^ 53"
  shows "ilog2 (of_int m * 2 powi k) = k + 52"
proof (rule ilog2_unique)
  have p: "(0::rat) < 2 powi k" by simp
  from m(1) have m0: "(0::rat) < of_int m" by simp
  with p show "(0::rat) < of_int m * 2 powi k" by simp
  have "(2::rat) powi (k + 52) = 2 ^ 52 * 2 powi k"
    by (simp add: power_int_add)
  also have "\<dots> \<le> of_int m * 2 powi k"
  proof (rule mult_right_mono)
    from m(1) have "(of_int (2 ^ 52) :: rat) \<le> of_int m" by (simp only: of_int_le_iff)
    then show "(2::rat) ^ 52 \<le> of_int m" by simp
  qed simp
  finally show "(2::rat) powi (k + 52) \<le> of_int m * 2 powi k" .
  have "(of_int m :: rat) < of_int (2 ^ 53)" using m(2) by (simp only: of_int_less_iff)
  then have "(of_int m :: rat) < 2 ^ 53" by simp
  then have "of_int m * 2 powi k < 2 ^ 53 * (2::rat) powi k"
    using p by (rule mult_strict_right_mono)
  also have "\<dots> = 2 powi (k + 52 + 1)"
    by (simp add: power_int_add)
  finally show "of_int m * 2 powi k < (2::rat) powi (k + 52 + 1)" .
qed

lemma fl_pos_ge:
  assumes m: "2 ^ 52 \<le> m" "m < 2 ^ 53" and le: "of_int m * 2 powi k \<le> x"
  shows "of_int m * 2 powi k \<le> fl_pos x"
proof -
  let ?d = "of_int m * (2::rat) powi k"
  let ?E = "ilog2 x - 52"
  have pk: "(0::rat) < 2 powi k" by simp
  from m(1) have "(0::rat) < of_int m" by simp
  with pk have d0: "0 < ?d" by simp
  with le have x0: "0 < x" by simp
  have kE: "k \<le> ?E"
    using ilog2_mono [OF d0 le] ilog2_representable [OF m, of k] by simp
  have pE: "(0::rat) < 2 powi ?E" by simp
  show ?thesis
  proof (cases "?E = k")
    case True
    from le pk have "of_int m \<le> x / 2 powi k" by (simp add: pos_le_divide_eq)
    then have "m \<le> round_half_even (x / 2 powi k)" by (rule round_half_even_ge)
    then have "(of_int m :: rat) \<le> of_int (round_half_even (x / 2 powi k))"
      by (simp only: of_int_le_iff)
    then have "?d \<le> of_int (round_half_even (x / 2 powi k)) * 2 powi k"
      by (rule mult_right_mono) simp
    then show ?thesis by (simp add: fl_pos_def True)
  next
    case False
    with kE have k1: "k + 1 \<le> ?E" by simp
    from significand_range(1) [OF x0] have "of_int (2 ^ 52) \<le> x / 2 powi ?E" by simp
    then have "2 ^ 52 \<le> round_half_even (x / 2 powi ?E)" by (rule round_half_even_ge)
    then have "(of_int (2 ^ 52) :: rat) \<le> of_int (round_half_even (x / 2 powi ?E))"
      by (simp only: of_int_le_iff)
    then have "(2::rat) ^ 52 \<le> of_int (round_half_even (x / 2 powi ?E))" by simp
    then have "(2::rat) ^ 52 * 2 powi ?E \<le> fl_pos x"
      unfolding fl_pos_def by (rule mult_right_mono) simp
    moreover have "(2::rat) ^ 52 * 2 powi (k + 1) \<le> 2 ^ 52 * 2 powi ?E"
      by (rule mult_left_mono [OF power_int_increasing [OF k1]]) simp_all
    moreover have "?d \<le> 2 ^ 52 * 2 powi (k + 1)"
    proof -
      have "(of_int m :: rat) \<le> of_int (2 ^ 53)" using m(2) by (simp only: of_int_le_iff)
      then have "(of_int m :: rat) \<le> 2 ^ 53" by simp
      then have "?d \<le> 2 ^ 53 * 2 powi k" by (rule mult_right_mono) simp
      also have "\<dots> = 2 ^ 52 * 2 powi (k + 1)" by (simp add: power_int_add)
      finally show ?thesis .
    qed
    ultimately show ?thesis by linarith
  qed
qed

lemma fl_pos_le:
  assumes m: "2 ^ 52 \<le> m" "m < 2 ^ 53" and x0: "0 < x" and le: "x \<le> of_int m * 2 powi k"
  shows "fl_pos x \<le> of_int m * 2 powi k"
proof -
  let ?d = "of_int m * (2::rat) powi k"
  let ?E = "ilog2 x - 52"
  have pk: "(0::rat) < 2 powi k" by simp
  have Ek: "?E \<le> k"
    using ilog2_mono [OF x0 le] ilog2_representable [OF m, of k] by simp
  show ?thesis
  proof (cases "?E = k")
    case True
    from le pk have "x / 2 powi k \<le> of_int m" by (simp add: pos_divide_le_eq)
    then have "round_half_even (x / 2 powi k) \<le> m" by (rule round_half_even_le)
    then have "(of_int (round_half_even (x / 2 powi k)) :: rat) \<le> of_int m"
      by (simp only: of_int_le_iff)
    then have "of_int (round_half_even (x / 2 powi k)) * 2 powi k \<le> ?d"
      by (rule mult_right_mono) simp
    then show ?thesis by (simp add: fl_pos_def True)
  next
    case False
    with Ek have E1: "?E + 1 \<le> k" by simp
    from significand_range(2) [OF x0] have "x / 2 powi ?E \<le> of_int (2 ^ 53)" by simp
    then have "round_half_even (x / 2 powi ?E) \<le> 2 ^ 53" by (rule round_half_even_le)
    then have "(of_int (round_half_even (x / 2 powi ?E)) :: rat) \<le> of_int (2 ^ 53)"
      by (simp only: of_int_le_iff)
    then have "(of_int (round_half_even (x / 2 powi ?E)) :: rat) \<le> 2 ^ 53" by simp
    then have "fl_pos x \<le> 2 ^ 53 * 2 powi ?E"
      unfolding fl_pos_def by (rule mult_right_mono) simp
    also have "\<dots> = 2 ^ 52 * 2 powi (?E + 1)"
    proof -
      have "(2::rat) powi (?E + 1) = 2 powi ?E * 2" by (rule power_int_add_1) simp
      then show ?thesis by simp
    qed
    also have "\<dots> \<le> 2 ^ 52 * 2 powi k"
      by (rule mult_left_mono [OF power_int_increasing [OF E1]]) simp_all
    also have "\<dots> \<le> ?d"
    proof (rule mult_right_mono)
      from m(1) have "(of_int (2 ^ 52) :: rat) \<le> of_int m" by (simp only: of_int_le_iff)
      then show "(2::rat) ^ 52 \<le> of_int m" by simp
    qed simp
    finally show ?thesis .
  qed
qed

lemma fl_pos_representable:
  assumes m: "2 ^ 52 \<le> m" "m < 2 ^ 53"
  shows "fl_pos (of_int m * 2 powi k) = of_int m * 2 powi k"
proof (rule antisym)
  from m(1) have "(0::rat) < of_int m" by simp
  then have "(0::rat) < of_int m * 2 powi k" by simp
  then show "fl_pos (of_int m * 2 powi k) \<le> of_int m * 2 powi k"
    by (rule fl_pos_le [OF m]) simp
  show "of_int m * 2 powi k \<le> fl_pos (of_int m * 2 powi k)"
    by (rule fl_pos_ge [OF m]) simp
qed

lemma fl_pos_eqI:
  assumes lo: "2 powi (k + 52) \<le> x" and hi: "x < 2 powi (k + 53)"
    and near: "\<bar>x / 2 powi k - of_int m\<bar> < 1 / 2"
  shows "fl_pos x = of_int m * 2 powi k"
proof -
  have "(0::rat) < 2 powi (k + 52)" by simp
  with lo have x0: "0 < x" by linarith
  have "k + 53 = k + 52 + 1" by simp
  with hi have hi': "x < 2 powi (k + 52 + 1)" by simp
  have il: "ilog2 x - 52 = k"
    using ilog2_unique [OF x0 lo hi'] by simp
  show ?thesis
    unfolding fl_pos_def il round_half_even_near [OF near] ..
qed

lemma fl_pos_error:
  assumes "0 < x"
  shows "\<bar>fl_pos x - x\<bar> \<le> x / 2 ^ 53"
proof -
  let ?E = "ilog2 x - 52"
  let ?y = "x / 2 powi ?E"
  have pE: "(0::rat) < 2 powi ?E" by simp
  have xy: "x = ?y * 2 powi ?E" by simp
  have "fl_pos x - x = (of_int (round_half_even ?y) - ?y) * 2 powi ?E"
    unfolding fl_pos_def by (simp add: left_diff_distrib)
  then have "\<bar>fl_pos x - x\<bar> = \<bar>of_int (round_half_even ?y) - ?y\<bar> * 2 powi ?E"
    by (simp add: abs_mult)
  also have "\<dots> \<le> 1 / 2 * 2 powi ?E"
    by (rule mult_right_mono [OF round_half_even_error]) simp
  also have "\<dots> \<le> (?y / 2 ^ 53) * 2 powi ?E"
  proof (rule mult_right_mono)
    have "(1::rat) / 2 = 2 ^ 52 / 2 ^ 53" by simp
    also have "\<dots> \<le> ?y / 2 ^ 53"
      by (rule divide_right_mono [OF significand_range(1) [OF assms]]) simp
    finally show "1 / 2 \<le> ?y / 2 ^ 53" .
  qed simp
  also have "\<dots> = x / 2 ^ 53" by simp
  finally show ?thesis .
qed

text \<open>The standard model of rounding: \<open>fl x = x (1 + \<delta>)\<close> with \<open>|\<delta>| \<le> 2^-53\<close>.\<close>

lemma fl_relative_error:
  "\<exists>\<delta>. \<bar>\<delta>\<bar> \<le> 1 / 2 ^ 53 \<and> fl x = x * (1 + \<delta>)"
proof -
  have pos: "\<exists>\<delta>. \<bar>\<delta>\<bar> \<le> 1 / 2 ^ 53 \<and> fl_pos z = z * (1 + \<delta>)" if z: "0 < z" for z
  proof (intro exI conjI)
    let ?d = "(fl_pos z - z) / z"
    from fl_pos_error [OF z] z show "\<bar>?d\<bar> \<le> 1 / 2 ^ 53"
      by (simp add: abs_divide pos_divide_le_eq mult.commute)
    from z show "fl_pos z = z * (1 + ?d)" by (simp add: field_simps)
  qed
  show ?thesis
  proof (cases "x = 0")
    case True
    then show ?thesis by (intro exI [of _ 0]) (simp add: fl_def)
  next
    case False
    show ?thesis
    proof (cases "0 < x")
      case True
      with pos [OF True] show ?thesis by (simp add: fl_def)
    next
      case neg: False
      with False have "0 < - x" by simp
      from pos [OF this] obtain \<delta> where "\<bar>\<delta>\<bar> \<le> 1 / 2 ^ 53" "fl_pos (- x) = - x * (1 + \<delta>)"
        by blast
      with False neg show ?thesis by (intro exI [of _ \<delta>]) (simp add: fl_def)
    qed
  qed
qed

lemma fl_of_nat:
  assumes "n < 2 ^ 53"
  shows "fl (of_nat n) = of_nat n"
proof (cases "n = 0")
  case True
  then show ?thesis by (simp add: fl_def)
next
  case False
  let ?x = "of_nat n :: rat"
  let ?i = "ilog2 ?x"
  from False have x0: "0 < ?x" by simp
  note b = ilog2_bounds [OF x0]
  have i0: "0 \<le> ?i"
  proof (rule ccontr)
    assume "\<not> 0 \<le> ?i"
    then have "?i + 1 \<le> 0" by simp
    then have "(2::rat) powi (?i + 1) \<le> 2 powi 0" by (rule power_int_increasing) simp
    with b(2) have "?x < 1" by simp
    with False show False by simp
  qed
  have i52: "?i \<le> 52"
  proof (rule ccontr)
    assume "\<not> ?i \<le> 52"
    then have "53 \<le> ?i" by simp
    then have "(2::rat) powi 53 \<le> 2 powi ?i" by (rule power_int_increasing) simp
    with b(1) have "(2::rat) ^ 53 \<le> ?x" by simp
    then have "(of_nat (2 ^ 53) :: rat) \<le> of_nat n" by simp
    then have "2 ^ 53 \<le> n" by (simp only: of_nat_le_iff)
    with assms show False by simp
  qed
  define j where "j = nat (52 - ?i)"
  have j: "?i - 52 = - int j" using i52 by (simp add: j_def)
  have scaled: "?x / 2 powi (?i - 52) = of_int (int n * 2 ^ j)"
    by (simp add: j power_int_minus_divide)
  have "fl_pos ?x = of_int (int n * 2 ^ j) * 2 powi (?i - 52)"
    unfolding fl_pos_def scaled round_half_even_of_int ..
  also have "\<dots> = ?x" by (simp add: j power_int_minus_divide)
  finally show ?thesis using x0 by (simp add: fl_def)
qed

subsection \<open>Bounded deques\<close>

lemma pop_front_while_over_eq_drop:
  "pop_front_while_over cap q = drop (length q - cap) q"
proof (induction cap q rule: pop_front_while_over.induct)
  case (1 cap q)
  show ?case
  proof (cases "length q > cap")
    case True
    then obtain x xs where q: "q = x # xs" by (cases q) auto
    from True q have le: "cap \<le> length xs" by simp
    have "pop_front_while_over cap q = pop_front_while_over cap (tl q)"
      using True by (subst pop_front_while_over.simps) simp
    also have "\<dots> = drop (length (tl q) - cap) (tl q)"
      using True by (rule "1.IH")
    also have "\<dots> = drop (length xs - cap) xs"
      by (simp only: q list.sel)
    also have "\<dots> = drop (Suc (length xs - cap)) (x # xs)"
      by simp
    also have "Suc (length xs - cap) = length (x # xs) - cap"
      using le by simp
    finally show ?thesis by (simp only: q)
  next
    case False
    then show ?thesis by (subst pop_front_while_over.simps) simp
  qed
qed

subsection \<open>Security rules\<close>

text \<open>
  C4. For every pair (vendorId, productId), two calls of \<open>addSecurityRule\<close> with rules for
  that pair leave exactly one rule for the pair in the rule set, the rule of the second
  call; the rules for every other pair are the ones that were there, in their order.
\<close>

theorem addSecurityRule_twice_replaces:
  assumes "samePair v p r1" and "samePair v p r2"
  shows "filter (samePair v p)
           (getSecurityRules (fst (addSecurityRule r2 (fst (addSecurityRule r1 m))))) = [r2] \<and>
         filter (\<lambda>r. \<not> samePair v p r)
           (getSecurityRules (fst (addSecurityRule r2 (fst (addSecurityRule r1 m))))) =
         filter (\<lambda>r. \<not> samePair v p r) (getSecurityRules m)"
proof -
  let ?same = "\<lambda>r' existing. \<not> (rule_vendorId existing = rule_vendorId r' \<and>
                                rule_productId existing = rule_productId r')"
  have e1: "?same r1 = (\<lambda>r. \<not> samePair v p r)" and e2: "?same r2 = (\<lambda>r. \<not> samePair v p r)"
    using assms by (auto simp: samePair_def)
  have rs: "getSecurityRules (fst (addSecurityRule r2 (fst (addSecurityRule r1 m)))) =
      filter (\<lambda>r. \<not> samePair v p r) (getSecurityRules m) @ [r2]"
    unfolding addSecurityRule_def getSecurityRules_def e1 e2 using assms by simp
  show ?thesis unfolding rs using assms by simp
qed

theorem addSecurityRule_twice_replaces_witness:
  "samePair 0x1234 0x5678 (example_rule False []) \<and>
   samePair 0x1234 0x5678 (example_rule True [''0x03'']) \<and>
   filter (samePair 0x1234 0x5678)
     (getSecurityRules (fst (addSecurityRule (example_rule True [''0x03''])
        (fst (addSecurityRule (example_rule False []) SecurityManager_new))))) =
   [example_rule True [''0x03'']]"
proof -
  have h1: "samePair 0x1234 0x5678 (example_rule False [])"
    by (simp add: samePair_def example_rule_def)
  have h2: "samePair 0x1234 0x5678 (example_rule True [''0x03''])"
    by (simp add: samePair_def example_rule_def)
  from addSecurityRule_twice_replaces [OF h1 h2, of SecurityManager_new] h1 h2
  show ?thesis by blast
qed

subsection \<open>Security levels\<close>

text \<open>
  C10. A manager is constructed at level Medium. \<open>setSecurityLevel\<close> with the level that is
  already stored returns at once: the manager is unchanged (policy included) and no signal
  is emitted. With a different level the level is stored, the policy becomes the preset of
  that level (for Custom it stays as it was), and \<open>securityLevelChanged\<close> is emitted.
\<close>

theorem setSecurityLevel_same_level_is_noop:
  "currentLevel (state SecurityManager_new) = Medium \<and>
   setSecurityLevel (currentLevel (state m)) m = (m, []) \<and>
   (level \<noteq> currentLevel (state m) \<longrightarrow>
      currentLevel (state (fst (setSecurityLevel level m))) = level \<and>
      policy (authorizer (fst (setSecurityLevel level m))) =
        (case presetPolicy level of None \<Rightarrow> policy (authorizer m) | Some p \<Rightarrow> p) \<and>
      snd (setSecurityLevel level m) =
        (if level = Custom then [] else [policyChanged]) @ [securityLevelChanged level])"
proof -
  have a: "currentLevel (state SecurityManager_new) = Medium"
    by (simp add: SecurityManager_new_def)
  have b: "setSecurityLevel (currentLevel (state m)) m = (m, [])"
    by (simp add: setSecurityLevel_def)
  have c: "level \<noteq> currentLevel (state m) \<Longrightarrow>
      currentLevel (state (fst (setSecurityLevel level m))) = level \<and>
      policy (authorizer (fst (setSecurityLevel level m))) =
        (case presetPolicy level of None \<Rightarrow> policy (authorizer m) | Some p \<Rightarrow> p) \<and>
      snd (setSecurityLevel level m) =
        (if level = Custom then [] else [policyChanged]) @ [securityLevelChanged level]"
    by (cases level)
       (simp_all add: setSecurityLevel_def enforceSecurityLevel_def presetPolicy_def
          setAuthorizationPolicy_def AuthorizationPolicy_default_def)
  from a b c show ?thesis by blast
qed

theorem setSecurityLevel_same_level_is_noop_witness:
  "High \<noteq> currentLevel (state SecurityManager_new) \<and>
   setSecurityLevel Medium SecurityManager_new = (SecurityManager_new, []) \<and>
   authorizationTimeout (policy (authorizer (fst (setSecurityLevel High SecurityManager_new)))) = 15 \<and>
   snd (setSecurityLevel High SecurityManager_new) = [policyChanged, securityLevelChanged High]"
proof -
  note t = setSecurityLevel_same_level_is_noop [of SecurityManager_new High]
  from t have lvl: "currentLevel (state SecurityManager_new) = Medium" by blast
  then have ne: "High \<noteq> currentLevel (state SecurityManager_new)" by simp
  from t lvl have same: "setSecurityLevel Medium SecurityManager_new = (SecurityManager_new, [])"
    by metis
  from t ne have pol: "policy (authorizer (fst (setSecurityLevel High SecurityManager_new))) =
        (case presetPolicy High of None \<Rightarrow> policy (authorizer SecurityManager_new) | Some p \<Rightarrow> p)"
    and sigs: "snd (setSecurityLevel High SecurityManager_new) =
        (if High = Custom then [] else [policyChanged]) @ [securityLevelChanged High]"
    by blast+
  from pol have "authorizationTimeout (policy (authorizer (fst (setSecurityLevel High SecurityManager_new)))) = 15"
    by (simp add: presetPolicy_def)
  with ne same sigs show ?thesis by simp
qed

subsection \<open>Authorization\<close>

lemma recordResult_eq:
  "recordResult r st =
     st\<lparr>history := drop (Suc (length (history st)) - maxHistorySize st) (history st @ [r])\<rparr>"
  by (simp add: recordResult_def pruneHistory_def pop_front_while_over_eq_drop)

lemma appended_recordResult:
  "maxHistorySize st1 = maxHistorySize st \<Longrightarrow> history st1 = history st \<Longrightarrow>
   appended r st (recordResult r st1)"
  "maxHistorySize st1 = maxHistorySize st \<Longrightarrow> history st1 = history st \<Longrightarrow>
   appended r st ((recordResult r st1)\<lparr>isAuthorized := b\<rparr>)"
  by (simp_all add: appended_def recordResult_eq)

lemma stateOf_storeState: "stateOf (storeState a p st) p = st"
  by (simp add: stateOf_def storeState_def)

lemma stored_recordResult:
  "maxHistorySize st1 = maxHistorySize (stateOf a p) \<Longrightarrow> history st1 = history (stateOf a p) \<Longrightarrow>
   stored a p (r, storeState a p (recordResult r st1), steps)"
  "maxHistorySize st1 = maxHistorySize (stateOf a p) \<Longrightarrow> history st1 = history (stateOf a p) \<Longrightarrow>
   stored a p (r, storeState a p ((recordResult r st1)\<lparr>isAuthorized := b\<rparr>), steps)"
  by (simp_all add: stored_def appended_recordResult stateOf_storeState)

lemma confirmOrPass_stored:
  assumes "maxHistorySize st1 = maxHistorySize (stateOf a (addr dev))"
    "history st1 = history (stateOf a (addr dev))"
  shows "stored a (addr dev) (confirmOrPass env dev a st1 steps)"
  using assms by (simp add: confirmOrPass_def Let_def stored_recordResult)

lemma customOrConfirm_stored:
  assumes "maxHistorySize st1 = maxHistorySize (stateOf a (addr dev))"
    "history st1 = history (stateOf a (addr dev))"
  shows "stored a (addr dev) (customOrConfirm env dev a st1 steps)"
  using assms
  by (simp add: customOrConfirm_def Let_def stored_recordResult confirmOrPass_stored
      split: option.split)

lemma validateDeviceCertificate_held:
  "validateDeviceCertificate True (Some dev) a = None"
  by (simp add: validateDeviceCertificate_def lock_guard_def)

lemma authorize_not_cached_stored:
  assumes nc: "\<not> cachedAuthorization env a (addr dev)"
    and ncert: "\<not> reachesCertificateCheck env a dev"
  shows "\<exists>out. authorizeDevice env (Some dev) a = Some out \<and> stored a (addr dev) out"
proof -
  let ?old = "stateOf a (addr dev)"
  let ?upd = "?old\<lparr>isAuthorized := False, lastAuthAttempt := now_attempt env\<rparr>"
  have st: "maxHistorySize ?upd = maxHistorySize ?old" "history ?upd = history ?old" by simp_all
  have st': "maxHistorySize (?upd\<lparr>isAuthorized := True\<rparr>) = maxHistorySize ?old"
     "history (?upd\<lparr>isAuthorized := True\<rparr>) = history ?old" by simp_all
  note cc = customOrConfirm_stored [OF st]
  note rr = stored_recordResult(1) [OF st] stored_recordResult(1) [OF st']
  have nc': "\<not> (isAuthorized ?old \<and> \<not> isAuthorizationExpired (now_expiry env) ?old)"
    using nc by (simp add: cachedAuthorization_def)
  consider (known) "autoAuthorizeKnownDevices (policy a) \<and> isKnownDevice dev"
    | (denied) "\<not> (autoAuthorizeKnownDevices (policy a) \<and> isKnownDevice dev)"
        "enforceSystemPolicies (policy a) \<and> \<not> checkSystemPolicies (Some dev)"
    | (passed) "\<not> (autoAuthorizeKnownDevices (policy a) \<and> isKnownDevice dev)"
        "\<not> (enforceSystemPolicies (policy a) \<and> \<not> checkSystemPolicies (Some dev))"
        "\<not> checkDeviceCertificates (policy a)"
    using nc ncert by (auto simp: reachesCertificateCheck_def)
  then show ?thesis
  proof cases
    case known
    then have "authorizeDevice env (Some dev) a =
        Some (createResult (now_result env) True ''Known device type'' Automatic,
              storeState a (addr dev)
                (recordResult (createResult (now_result env) True ''Known device type'' Automatic)
                   (?upd\<lparr>isAuthorized := True\<rparr>)), [])"
      unfolding authorizeDevice_def Let_def option.case if_not_P [OF nc'] if_P [OF known] by simp
    with rr(2) show ?thesis by simp
  next
    case denied
    then have "authorizeDevice env (Some dev) a =
        Some (createResult (now_result env) False ''System policy violation'' SystemPolicy,
              storeState a (addr dev)
                (recordResult (createResult (now_result env) False ''System policy violation''
                   SystemPolicy) ?upd), [SystemPoliciesChecked])"
      unfolding authorizeDevice_def Let_def option.case if_not_P [OF nc']
        if_not_P [OF denied(1)] if_P [OF denied(2)]
      using denied(2) by simp
    with rr(1) show ?thesis by simp
  next
    case passed
    then have "authorizeDevice env (Some dev) a =
        Some (customOrConfirm env dev a ?upd
                (if enforceSystemPolicies (policy a) then [SystemPoliciesChecked] else []))"
      unfolding authorizeDevice_def Let_def option.case if_not_P [OF nc']
        if_not_P [OF passed(1)] if_not_P [OF passed(2)]
      using passed(3) by simp
    with cc show ?thesis by simp
  qed
qed

text \<open>
  A call that gets as far as the certificate check does not return: it holds \<open>stateMutex\<close>
  and \<open>validateDeviceCertificate\<close> takes it again.
\<close>

lemma authorizeDevice_stops_at_certificate_check:
  assumes "reachesCertificateCheck env a dev"
  shows "authorizeDevice env (Some dev) a = None"
proof -
  let ?old = "stateOf a (addr dev)"
  from assms have nc': "\<not> (isAuthorized ?old \<and> \<not> isAuthorizationExpired (now_expiry env) ?old)"
    and rest: "\<not> (autoAuthorizeKnownDevices (policy a) \<and> isKnownDevice dev)"
      "\<not> (enforceSystemPolicies (policy a) \<and> \<not> checkSystemPolicies (Some dev))"
      "checkDeviceCertificates (policy a)"
    by (simp_all add: reachesCertificateCheck_def cachedAuthorization_def)
  show ?thesis
    unfolding authorizeDevice_def Let_def option.case if_not_P [OF nc']
      if_not_P [OF rest(1)] if_not_P [OF rest(2)]
    using rest(3) by (simp add: validateDeviceCertificate_held)
qed

text \<open>
  So at level High a first call for a device that passes the system policies (class 0x00
  here) does not return.
\<close>

lemma high_level_call_reaches_certificate_check:
  "authorizeDevice (example_env 1000) (Some (example_device 0x1234 0x5678 0x00))
     (authorizer (fst (setSecurityLevel High SecurityManager_new))) = None"
proof (rule authorizeDevice_stops_at_certificate_check)
  show "reachesCertificateCheck (example_env 1000)
     (authorizer (fst (setSecurityLevel High SecurityManager_new)))
     (example_device 0x1234 0x5678 0x00)"
    by (simp add: reachesCertificateCheck_def cachedAuthorization_def stateOf_def
        setSecurityLevel_def enforceSecurityLevel_def setAuthorizationPolicy_def
        SecurityManager_new_def DeviceAuthorizer_new_def DeviceAuthState_default_def
        checkSystemPolicies_def deviceClass_def example_device_def
        DeviceClass_MassStorage_def DeviceClass_Video_def DeviceClass_AudioVideo_def
        DeviceClass_VendorSpecific_def DeviceClass_Diagnostic_def DeviceClass_Wireless_def)
qed

lemma authorize_cached:
  assumes c: "cachedAuthorization env a (addr dev)"
  shows "authorizeDevice env (Some dev) a =
           Some (createResult (now_result env) True ''Already authorized'' Automatic, a, [])"
proof -
  from c have auth: "isAuthorized (stateOf a (addr dev))"
    by (simp add: cachedAuthorization_def)
  then obtain st where st: "deviceStates a (addr dev) = Some st"
    by (cases "deviceStates a (addr dev)") (simp_all add: stateOf_def DeviceAuthState_default_def)
  then have "(deviceStates a)(addr dev \<mapsto> stateOf a (addr dev)) = deviceStates a"
    by (simp add: stateOf_def map_upd_triv)
  then have same: "storeState a (addr dev) (stateOf a (addr dev)) = a"
    by (simp add: storeState_def)
  from c have "isAuthorized (stateOf a (addr dev)) \<and>
      \<not> isAuthorizationExpired (now_expiry env) (stateOf a (addr dev))"
    by (simp add: cachedAuthorization_def)
  then show ?thesis
    by (simp add: authorizeDevice_def Let_def same)
qed

lemma stateOf_bounded:
  assumes "authStatesBounded a"
  shows "maxHistorySize (stateOf a p) = 100" "length (history (stateOf a p)) \<le> 100"
  using assms
  by (cases "deviceStates a p"; simp add: authStatesBounded_def stateOf_def DeviceAuthState_default_def)+

lemma stored_bounded:
  assumes b: "authStatesBounded a" and s: "stored a p out"
  shows "authStatesBounded (fst (snd out))"
proof -
  let ?new = "stateOf (fst (snd out)) p"
  from s have eq: "fst (snd out) = storeState a p ?new"
    and app: "appended (fst out) (stateOf a p) ?new"
    by (simp_all add: stored_def)
  from app stateOf_bounded [OF b, of p]
  have "maxHistorySize ?new = 100" "length (history ?new) \<le> 100"
    by (simp_all add: appended_def)
  then have "authStatesBounded (storeState a p ?new)"
    using b by (simp add: authStatesBounded_def storeState_def)
  with eq show ?thesis by simp
qed

lemma checkSystemPolicies_VendorSpecific:
  "deviceClass dev = DeviceClass_VendorSpecific \<Longrightarrow> \<not> checkSystemPolicies (Some dev)"
  by (simp add: checkSystemPolicies_def)

lemma isKnownDevice_VendorSpecific:
  "deviceClass dev = DeviceClass_VendorSpecific \<Longrightarrow> \<not> isKnownDevice dev"
  by (simp add: isKnownDevice_def DeviceClass_VendorSpecific_def DeviceClass_HID_def
      DeviceClass_Hub_def DeviceClass_Printer_def DeviceClass_MassStorage_def)

lemma policyFollowsLevel_new: "policyFollowsLevel SecurityManager_new"
  by (simp add: policyFollowsLevel_def SecurityManager_new_def presetPolicy_def
      DeviceAuthorizer_new_def)

lemma setSecurityLevel_keeps_policyFollowsLevel:
  assumes "policyFollowsLevel m"
  shows "policyFollowsLevel (fst (setSecurityLevel level m))"
proof (cases "currentLevel (state m) = level")
  case True
  with assms show ?thesis by (simp add: setSecurityLevel_def)
next
  case False
  then show ?thesis
    by (cases level)
       (simp_all add: setSecurityLevel_def enforceSecurityLevel_def presetPolicy_def
          policyFollowsLevel_def setAuthorizationPolicy_def AuthorizationPolicy_default_def)
qed

lemma setSecurityLevel_High_policy:
  assumes "policyFollowsLevel m"
  shows "presetPolicy High = Some (policy (authorizer (fst (setSecurityLevel High m))))"
proof -
  have "currentLevel (state (fst (setSecurityLevel High m))) = High"
    by (simp add: setSecurityLevel_def enforceSecurityLevel_def)
  with setSecurityLevel_keeps_policyFollowsLevel [OF assms, of High]
  show ?thesis by (simp add: policyFollowsLevel_def presetPolicy_def)
qed

text \<open>
  C1. After the security level is set to High the active policy is the High preset, and
  \<open>authorizeDevice\<close> on a device of class VendorSpecific (0xFF) that holds no cached
  unexpired authorization returns the denial "System policy violation" with the method
  SystemPolicy; the only check the call makes is the system-policy check.
\<close>

theorem high_level_denies_vendor_specific:
  assumes inv: "policyFollowsLevel m"
    and cls: "deviceClass dev = DeviceClass_VendorSpecific"
    and nc: "\<not> cachedAuthorization env (authorizer (fst (setSecurityLevel High m))) (addr dev)"
  shows "presetPolicy High = Some (policy (authorizer (fst (setSecurityLevel High m)))) \<and>
         map_option fst
           (authorizeDevice env (Some dev) (authorizer (fst (setSecurityLevel High m)))) =
           Some \<lparr>authorized = False, reason = ''System policy violation'',
                 timestamp = now_result env, auth_method = SystemPolicy\<rparr> \<and>
         map_option (\<lambda>out. snd (snd out))
           (authorizeDevice env (Some dev) (authorizer (fst (setSecurityLevel High m)))) =
           Some [SystemPoliciesChecked]"
proof -
  let ?a = "authorizer (fst (setSecurityLevel High m))"
  have pol: "presetPolicy High = Some (policy ?a)"
    by (rule setSecurityLevel_High_policy [OF inv])
  then have p: "\<lparr>autoAuthorizeKnownDevices = False, requireUserConfirmation = True,
      checkDeviceCertificates = True, enforceSystemPolicies = True,
      authorizationTimeout = 15\<rparr> = policy ?a"
    by (simp add: presetPolicy_def)
  have flags: "\<not> autoAuthorizeKnownDevices (policy ?a)" "enforceSystemPolicies (policy ?a)"
    by (simp_all add: p [symmetric])
  have nc': "\<not> (isAuthorized (stateOf ?a (addr dev)) \<and>
      \<not> isAuthorizationExpired (now_expiry env) (stateOf ?a (addr dev)))"
    using nc by (simp add: cachedAuthorization_def)
  have "authorizeDevice env (Some dev) ?a =
     Some (createResult (now_result env) False ''System policy violation'' SystemPolicy,
      storeState ?a (addr dev)
        (recordResult (createResult (now_result env) False ''System policy violation'' SystemPolicy)
           ((stateOf ?a (addr dev))\<lparr>isAuthorized := False, lastAuthAttempt := now_attempt env\<rparr>)),
      [SystemPoliciesChecked])"
    unfolding authorizeDevice_def Let_def option.case if_not_P [OF nc']
    using flags checkSystemPolicies_VendorSpecific [OF cls]
    by simp
  with pol show ?thesis by (simp add: createResult_def)
qed

theorem high_level_denies_vendor_specific_witness:
  "policyFollowsLevel SecurityManager_new \<and>
   deviceClass (example_device 0x1234 0x5678 0xFF) = DeviceClass_VendorSpecific \<and>
   \<not> cachedAuthorization (example_env 1000)
        (authorizer (fst (setSecurityLevel High SecurityManager_new)))
        (addr (example_device 0x1234 0x5678 0xFF)) \<and>
   map_option (\<lambda>out. reason (fst out))
     (authorizeDevice (example_env 1000) (Some (example_device 0x1234 0x5678 0xFF))
        (authorizer (fst (setSecurityLevel High SecurityManager_new)))) =
     Some ''System policy violation'' \<and>
   map_option (\<lambda>out. snd (snd out))
     (authorizeDevice (example_env 1000) (Some (example_device 0x1234 0x5678 0xFF))
        (authorizer (fst (setSecurityLevel High SecurityManager_new)))) =
     Some [SystemPoliciesChecked]"
proof -
  let ?call = "authorizeDevice (example_env 1000) (Some (example_device 0x1234 0x5678 0xFF))
        (authorizer (fst (setSecurityLevel High SecurityManager_new)))"
  have h1: "policyFollowsLevel SecurityManager_new"
    by (rule policyFollowsLevel_new)
  have h2: "deviceClass (example_device 0x1234 0x5678 0xFF) = DeviceClass_VendorSpecific"
    by (simp add: deviceClass_def example_device_def DeviceClass_VendorSpecific_def)
  have h3: "\<not> cachedAuthorization (example_env 1000)
        (authorizer (fst (setSecurityLevel High SecurityManager_new)))
        (addr (example_device 0x1234 0x5678 0xFF))"
    by (simp add: cachedAuthorization_def stateOf_def setSecurityLevel_def
        enforceSecurityLevel_def setAuthorizationPolicy_def SecurityManager_new_def
        DeviceAuthorizer_new_def DeviceAuthState_default_def example_device_def)
  note t = high_level_denies_vendor_specific [OF h1 h2 h3]
  from t have r: "map_option fst ?call =
           Some \<lparr>authorized = False, reason = ''System policy violation'',
                 timestamp = now_result (example_env 1000), auth_method = SystemPolicy\<rparr>"
    by (rule conjunct1 [OF conjunct2])
  from t have s: "map_option (\<lambda>out. snd (snd out)) ?call = Some [SystemPoliciesChecked]"
    by (rule conjunct2 [OF conjunct2])
  from r obtain out where o: "?call = Some out"
    and f: "fst out = \<lparr>authorized = False, reason = ''System policy violation'',
                 timestamp = now_result (example_env 1000), auth_method = SystemPolicy\<rparr>"
    by (cases ?call) auto
  have "reason (fst out) = ''System policy violation''"
    by (simp only: f AuthorizationResult.simps)
  then have r': "map_option (\<lambda>out. reason (fst out)) ?call = Some ''System policy violation''"
    by (simp only: o option.map)
  from h1 h2 h3 r' s show ?thesis by blast
qed

lemma example_authorized_once_eq:
  "example_authorized_once =
     storeState DeviceAuthorizer_new 1
       \<lparr>isAuthorized = True, lastAuthAttempt = 1000,
        history = [createResult 1000 True ''Known device type'' Automatic],
        maxHistorySize = 100\<rparr>"
  by (simp add: example_authorized_once_def authorizeDevice_def Let_def stateOf_def
      DeviceAuthorizer_new_def DeviceAuthState_default_def example_device_def example_env_def
      isKnownDevice_def deviceClass_def DeviceClass_HID_def recordResult_eq)

lemma example_cached:
  "cachedAuthorization (example_env 2000) example_authorized_once 1"
  by (simp add: example_authorized_once_eq cachedAuthorization_def stateOf_storeState
      isAuthorizationExpired_def duration_cast_hours_def trunc_div_def example_env_def)

text \<open>
  C2 as stated fails on the cached-success path: a keyboard authorised at tick 1000 and
  asked again at tick 2000 gets "Already authorized", and that result is not in its history.
\<close>

theorem cached_success_is_not_recorded:
  "authorizeDevice (example_env 2000) (Some (example_device 0x046D 0xC31C 0x03))
     example_authorized_once =
     Some (\<lparr>authorized = True, reason = ''Already authorized'', timestamp = 2000,
            auth_method = Automatic\<rparr>, example_authorized_once, []) \<and>
   \<lparr>authorized = True, reason = ''Already authorized'', timestamp = 2000,
     auth_method = Automatic\<rparr> \<notin> set (history (stateOf example_authorized_once 1))"
proof -
  have c: "cachedAuthorization (example_env 2000) example_authorized_once
             (addr (example_device 0x046D 0xC31C 0x03))"
    using example_cached by (simp add: example_device_def)
  have out: "authorizeDevice (example_env 2000) (Some (example_device 0x046D 0xC31C 0x03))
                  example_authorized_once =
        Some (createResult (now_result (example_env 2000)) True ''Already authorized'' Automatic,
         example_authorized_once, [])"
    by (rule authorize_cached [OF c])
  have h: "history (stateOf example_authorized_once 1) =
      [createResult 1000 True ''Known device type'' Automatic]"
    by (simp add: example_authorized_once_eq stateOf_storeState)
  have t: "now_result (example_env 2000) = 2000"
    by (simp add: example_env_def)
  show ?thesis
    using h by (simp add: out createResult_def t)
qed


lemma last_drop_snoc:
  "0 < c \<Longrightarrow> last (drop (Suc (length h) - c) (h @ [r])) = r"
  by (cases c) simp_all

text \<open>
  C2, amended. A call of \<open>authorizeDevice\<close> that does not get as far as the certificate
  check returns. On a device that holds no cached unexpired authorization it appends the
  result it returns to that device's history, as the newest entry, the history keeping
  its newest 100 entries (oldest evicted first). A call that finds a cached unexpired
  authorization returns "Already authorized" and leaves the authorizer, histories
  included, as it was.
\<close>

theorem authorizeDevice_records_unless_cached:
  assumes b: "authStatesBounded a"
    and ncert: "\<not> reachesCertificateCheck env a dev"
  shows "\<exists>out. authorizeDevice env (Some dev) a = Some out \<and>
         (\<not> cachedAuthorization env a (addr dev) \<longrightarrow>
            history (stateOf (fst (snd out)) (addr dev)) =
              drop (Suc (length (history (stateOf a (addr dev)))) - 100)
                   (history (stateOf a (addr dev)) @ [fst out]) \<and>
            last (history (stateOf (fst (snd out)) (addr dev))) = fst out \<and>
            length (history (stateOf (fst (snd out)) (addr dev))) \<le> 100 \<and>
            authStatesBounded (fst (snd out))) \<and>
         (cachedAuthorization env a (addr dev) \<longrightarrow>
            out = (createResult (now_result env) True ''Already authorized'' Automatic, a, []))"
proof (cases "cachedAuthorization env a (addr dev)")
  case True
  from authorize_cached [OF True] True show ?thesis by simp
next
  case nc: False
  from authorize_not_cached_stored [OF nc ncert] obtain out
    where out: "authorizeDevice env (Some dev) a = Some out" and s: "stored a (addr dev) out"
    by blast
  from s have app: "appended (fst out) (stateOf a (addr dev)) (stateOf (fst (snd out)) (addr dev))"
    by (simp add: stored_def)
  note sb = stateOf_bounded [OF b, of "addr dev"]
  from app sb(1)
  have h: "history (stateOf (fst (snd out)) (addr dev)) =
              drop (Suc (length (history (stateOf a (addr dev)))) - 100)
                   (history (stateOf a (addr dev)) @ [fst out])"
    by (simp add: appended_def)
  have l: "last (history (stateOf (fst (snd out)) (addr dev))) = fst out"
    unfolding h by (rule last_drop_snoc) simp
  have n: "length (history (stateOf (fst (snd out)) (addr dev))) \<le> 100"
    unfolding h using sb(2) by simp
  have k: "authStatesBounded (fst (snd out))"
    by (rule stored_bounded [OF b s])
  from out nc h l n k show ?thesis by blast
qed

lemma authStatesBounded_new: "authStatesBounded DeviceAuthorizer_new"
  by (simp add: authStatesBounded_def DeviceAuthorizer_new_def)

lemma example_not_cached:
  "\<not> cachedAuthorization (example_env 1000) DeviceAuthorizer_new
       (addr (example_device 0x046D 0xC31C 0x03))"
  by (simp add: cachedAuthorization_def stateOf_def DeviceAuthorizer_new_def
      DeviceAuthState_default_def)

lemma example_no_certificate_check:
  "\<not> reachesCertificateCheck (example_env 1000) DeviceAuthorizer_new
       (example_device 0x046D 0xC31C 0x03)"
  "\<not> reachesCertificateCheck (example_env 2000) example_authorized_once
       (example_device 0x046D 0xC31C 0x03)"
  by (simp_all add: reachesCertificateCheck_def DeviceAuthorizer_new_def
      example_authorized_once_eq storeState_def)

lemma authStatesBounded_example: "authStatesBounded example_authorized_once"
  by (simp add: example_authorized_once_eq authStatesBounded_def storeState_def
      DeviceAuthorizer_new_def)

theorem authorizeDevice_records_unless_cached_witness:
  "authStatesBounded DeviceAuthorizer_new \<and>
   \<not> reachesCertificateCheck (example_env 1000) DeviceAuthorizer_new
       (example_device 0x046D 0xC31C 0x03) \<and>
   \<not> cachedAuthorization (example_env 1000) DeviceAuthorizer_new
       (addr (example_device 0x046D 0xC31C 0x03)) \<and>
   (\<exists>out. authorizeDevice (example_env 1000) (Some (example_device 0x046D 0xC31C 0x03))
            DeviceAuthorizer_new = Some out \<and>
          last (history (stateOf (fst (snd out)) (addr (example_device 0x046D 0xC31C 0x03)))) =
            fst out) \<and>
   authStatesBounded example_authorized_once \<and>
   \<not> reachesCertificateCheck (example_env 2000) example_authorized_once
       (example_device 0x046D 0xC31C 0x03) \<and>
   cachedAuthorization (example_env 2000) example_authorized_once
       (addr (example_device 0x046D 0xC31C 0x03)) \<and>
   authorizeDevice (example_env 2000) (Some (example_device 0x046D 0xC31C 0x03))
       example_authorized_once =
     Some (createResult (now_result (example_env 2000)) True ''Already authorized'' Automatic,
           example_authorized_once, [])"
proof -
  have c: "cachedAuthorization (example_env 2000) example_authorized_once
             (addr (example_device 0x046D 0xC31C 0x03))"
    using example_cached by (simp add: example_device_def)
  note n1 = example_no_certificate_check(1)
  note n2 = example_no_certificate_check(2)
  from authorizeDevice_records_unless_cached [OF authStatesBounded_new n1] example_not_cached
  have first: "\<exists>out. authorizeDevice (example_env 1000) (Some (example_device 0x046D 0xC31C 0x03))
            DeviceAuthorizer_new = Some out \<and>
          last (history (stateOf (fst (snd out)) (addr (example_device 0x046D 0xC31C 0x03)))) =
            fst out"
    by blast
  from authorizeDevice_records_unless_cached [OF authStatesBounded_example n2] c
  have second: "authorizeDevice (example_env 2000) (Some (example_device 0x046D 0xC31C 0x03))
       example_authorized_once =
     Some (createResult (now_result (example_env 2000)) True ''Already authorized'' Automatic,
           example_authorized_once, [])"
    by blast
  from authStatesBounded_new n1 example_not_cached first authStatesBounded_example n2 c second
  show ?thesis by blast
qed

subsection \<open>Event log\<close>

lemma logSecurityEvent_Some:
  "logSecurityEvent now ev (Some dev) descr m =
     (m\<lparr>state := (state m)\<lparr>events :=
          drop (Suc (length (events (state m))) - maxEventHistory (state m))
            (events (state m) @
               [\<lparr>event = ev, event_timestamp = now,
                 deviceId = hex_upper 4 (unat (vendorId (dev_identifier dev))) @ '':'' @
                            hex_upper 4 (unat (productId (dev_identifier dev))),
                 description = descr, securityLevel = currentLevel (state m)\<rparr>])\<rparr>\<rparr>,
      [securityEventOccurred
         \<lparr>event = ev, event_timestamp = now,
          deviceId = hex_upper 4 (unat (vendorId (dev_identifier dev))) @ '':'' @
                     hex_upper 4 (unat (productId (dev_identifier dev))),
          description = descr, securityLevel = currentLevel (state m)\<rparr>])"
  by (simp add: logSecurityEvent_def Let_def pop_front_while_over_eq_drop getSecurityLevel_def)






subsection \<open>Protocol validation\<close>






















subsection \<open>Interface restrictions\<close>

lemma hex_digit_values:
  "n < 16 \<Longrightarrow> n \<in> {0, 1, 2, 3, 4, 5, 6, 7, 8, 9, 10, 11, 12, 13, 14, 15 :: nat}"
  by simp arith

lemma digit_char_eq_0: "n < 16 \<Longrightarrow> digit_char n = CHR ''0'' \<longleftrightarrow> n = 0"
  by (drule hex_digit_values) (auto simp: digit_char_def)

lemma digit_char_eq_3: "n < 16 \<Longrightarrow> digit_char n = CHR ''3'' \<longleftrightarrow> n = 3"
  by (drule hex_digit_values) (auto simp: digit_char_def)

lemma hex_upper_2:
  assumes "n < 256"
  shows "hex_upper 2 n = [digit_char (n div 16), digit_char (n mod 16)]"
proof (cases "n < 16")
  case True
  then show ?thesis
    by (simp add: hex_upper_def setw_fill0_def hex_digits.simps [of n] digit_char_def)
next
  case False
  with assms have "n div 16 < 16" by simp
  with False show ?thesis
    by (simp add: hex_upper_def setw_fill0_def hex_digits.simps [of n]
        hex_digits.simps [of "n div 16"])
qed

lemma interfaceId_eq_0x03: "interfaceId c = ''0x03'' \<longleftrightarrow> c = 3"
proof -
  have lt: "unat c < 256" using unsigned_less [of c, where ?'a = nat] by simp
  then have d: "unat c div 16 < 16" by simp
  have m: "unat c mod 16 < 16" by simp
  have "interfaceId c = ''0x03'' \<longleftrightarrow> unat c div 16 = 0 \<and> unat c mod 16 = 3"
    by (simp add: interfaceId_def hex_upper_2 [OF lt] digit_char_eq_0 [OF d] digit_char_eq_3 [OF m])
  also have "\<dots> \<longleftrightarrow> unat c = 3" by arith
  also have "\<dots> \<longleftrightarrow> c = 3" by (simp add: word_unat_eq_iff)
  finally show ?thesis .
qed

lemma altsettingsAllowed_iff:
  "altsettingsAllowed allowed ss \<longleftrightarrow>
     (\<forall>setting \<in> set ss. interfaceId (bInterfaceClass setting) \<in> set allowed)"
  by (induction ss) simp_all

lemma interfacesAllowed_iff:
  "interfacesAllowed allowed is \<longleftrightarrow>
     (\<forall>i \<in> set is. \<forall>setting \<in> set (altsetting i).
        interfaceId (bInterfaceClass setting) \<in> set allowed)"
  by (induction "is") (simp_all add: altsettingsAllowed_iff)

lemma validateDeviceInterfaces_unlisted:
  assumes "allowedInterfaces rule = [''0x03'']"
    and "active_config dev = Some config"
    and "declaresInterfaceClass config c" and "c \<noteq> 0x03"
  shows "\<not> validateDeviceInterfaces dev rule"
proof -
  from assms(3) obtain i setting where "i \<in> set (interface config)"
    "setting \<in> set (altsetting i)" "bInterfaceClass setting = c"
    unfolding declaresInterfaceClass_def by blast
  moreover from assms(4) have "interfaceId c \<notin> set [''0x03'']"
    by (simp add: interfaceId_eq_0x03)
  ultimately have "\<not> interfacesAllowed [''0x03''] (interface config)"
    unfolding interfacesAllowed_iff by blast
  then show ?thesis
    by (simp add: validateDeviceInterfaces_def assms(1,2))
qed


text \<open>
  C8. A device that is not in the authorized-devices cache and whose first matching rule
  is whitelisted with \<open>allowedInterfaces = ["0x03"]\<close> is refused by \<open>isDeviceAllowed\<close> when
  it declares an interface class other than 0x03; the newest entry of the event log is
  then the PolicyViolation event of this denial, emitted as \<open>securityEventOccurred\<close>. With
  an empty \<open>allowedInterfaces\<close> the interface check passes whatever the device declares,
  and a whitelisted, unexpired rule allows the device.
\<close>

theorem isDeviceAllowed_denies_unlisted_interface:
  assumes "authorizedDevices (state m) (deviceKey dev) = None"
    and "find (\<lambda>rule. matchesRule rule (Some dev)) (rules (state m)) = Some rule"
    and "isWhitelisted rule"
    and "0 < maxEventHistory (state m)"
  shows "(allowedInterfaces rule = [''0x03''] \<and> active_config dev = Some config \<and>
          declaresInterfaceClass config c \<and> c \<noteq> 0x03 \<longrightarrow>
            \<not> fst (isDeviceAllowed now (Some dev) m) \<and>
            event (last (events (state (fst (snd (isDeviceAllowed now (Some dev) m)))))) =
              PolicyViolation \<and>
            description (last (events (state (fst (snd (isDeviceAllowed now (Some dev) m)))))) =
              ''Device uses unauthorized interfaces'' \<and>
            snd (snd (isDeviceAllowed now (Some dev) m)) =
              [securityEventOccurred
                 (last (events (state (fst (snd (isDeviceAllowed now (Some dev) m))))))]) \<and>
         (allowedInterfaces rule = [] \<longrightarrow>
            validateDeviceInterfaces dev rule \<and>
            (\<not> (expiryDate rule \<noteq> 0 \<and> now > expiryDate rule) \<longrightarrow>
               isDeviceAllowed now (Some dev) m = (True, m, [])))"
proof (intro conjI impI)
  have r: "findMatchingRule (Some dev) m = rule"
    by (simp add: findMatchingRule_def assms(2))
  {
    assume a: "allowedInterfaces rule = [''0x03''] \<and> active_config dev = Some config \<and>
          declaresInterfaceClass config c \<and> c \<noteq> 0x03"
    then have bad: "\<not> validateDeviceInterfaces dev rule"
      using validateDeviceInterfaces_unlisted [of rule dev config c] by blast
    have out: "isDeviceAllowed now (Some dev) m =
        (False, logSecurityEvent now PolicyViolation (Some dev)
                  ''Device uses unauthorized interfaces'' m)"
      using bad assms(1,3) by (simp add: isDeviceAllowed_def r Let_def)
    note ev = logSecurityEvent_Some [of now PolicyViolation dev
        "''Device uses unauthorized interfaces''" m]
    show "\<not> fst (isDeviceAllowed now (Some dev) m)"
      by (simp add: out)
    show "event (last (events (state (fst (snd (isDeviceAllowed now (Some dev) m)))))) =
              PolicyViolation"
      unfolding out using assms(4) by (simp add: ev last_drop_snoc)
    show "description (last (events (state (fst (snd (isDeviceAllowed now (Some dev) m)))))) =
              ''Device uses unauthorized interfaces''"
      unfolding out using assms(4) by (simp add: ev last_drop_snoc)
    show "snd (snd (isDeviceAllowed now (Some dev) m)) =
              [securityEventOccurred
                 (last (events (state (fst (snd (isDeviceAllowed now (Some dev) m))))))]"
      unfolding out using assms(4) by (simp add: ev last_drop_snoc)
  }
  {
    assume e: "allowedInterfaces rule = []"
    then show v: "validateDeviceInterfaces dev rule"
      by (simp add: validateDeviceInterfaces_def)
    assume "\<not> (expiryDate rule \<noteq> 0 \<and> now > expiryDate rule)"
    with v assms(1,3) show "isDeviceAllowed now (Some dev) m = (True, m, [])"
      by (simp add: isDeviceAllowed_def r Let_def)
  }
qed

lemma example_manager_rules: "rules (state example_manager) = [example_rule True [''0x03'']]"
  by (simp add: example_manager_def addSecurityRule_def SecurityManager_new_def)

lemma example_manager_state:
  "authorizedDevices (state example_manager) k = None"
  "maxEventHistory (state example_manager) = 10000"
  by (simp_all add: example_manager_def addSecurityRule_def SecurityManager_new_def)

theorem isDeviceAllowed_denies_unlisted_interface_witness:
  "authorizedDevices (state example_manager) (deviceKey (example_open_device 0x08)) = None \<and>
   find (\<lambda>rule. matchesRule rule (Some (example_open_device 0x08))) (rules (state example_manager))
     = Some (example_rule True [''0x03'']) \<and>
   isWhitelisted (example_rule True [''0x03'']) \<and>
   0 < maxEventHistory (state example_manager) \<and>
   allowedInterfaces (example_rule True [''0x03'']) = [''0x03''] \<and>
   active_config (example_open_device 0x08) = Some (example_config 0x08 0x02) \<and>
   declaresInterfaceClass (example_config 0x08 0x02) 0x08 \<and> (0x08 :: 8 word) \<noteq> 0x03 \<and>
   \<not> fst (isDeviceAllowed 1000 (Some (example_open_device 0x08)) example_manager) \<and>
   event (last (events (state (fst (snd (isDeviceAllowed 1000 (Some (example_open_device 0x08))
     example_manager)))))) = PolicyViolation"
proof -
  have h1: "authorizedDevices (state example_manager) (deviceKey (example_open_device 0x08)) = None"
    by (rule example_manager_state(1))
  have h2: "find (\<lambda>rule. matchesRule rule (Some (example_open_device 0x08)))
      (rules (state example_manager)) = Some (example_rule True [''0x03''])"
    by (simp add: example_manager_rules matchesRule_def example_rule_def
        example_open_device_def example_device_def)
  have h3: "isWhitelisted (example_rule True [''0x03''])"
    by (simp add: example_rule_def)
  have h4: "0 < maxEventHistory (state example_manager)"
    by (simp add: example_manager_state(2))
  have h5: "allowedInterfaces (example_rule True [''0x03'']) = [''0x03'']"
    by (simp add: example_rule_def)
  have h6: "active_config (example_open_device 0x08) = Some (example_config 0x08 0x02)"
    by (simp add: example_open_device_def)
  have h7: "declaresInterfaceClass (example_config 0x08 0x02) 0x08"
    by (simp add: declaresInterfaceClass_def example_config_def)
  have h8: "(0x08 :: 8 word) \<noteq> 0x03" by simp
  from isDeviceAllowed_denies_unlisted_interface [OF h1 h2 h3 h4,
      of "example_config 0x08 0x02" "0x08" 1000] h1 h2 h3 h4 h5 h6 h7 h8
  show ?thesis by blast
qed

subsection \<open>Transfer history\<close>

lemma pop_front_while_over_keepLast: "pop_front_while_over cap q = keepLast cap q"
  by (simp add: pop_front_while_over_eq_drop keepLast_def)

lemma length_keepLast: "length (keepLast n xs) = min n (length xs)"
  by (simp add: keepLast_def)

lemma keepLast_keepLast_snoc: "keepLast c (keepLast c h @ [r]) = keepLast c (h @ [r])"
proof (cases "length h \<le> c")
  case True
  then show ?thesis by (simp add: keepLast_def)
next
  case False
  then have lt: "c < length h" by simp
  show ?thesis
  proof (cases c)
    case 0
    then show ?thesis by (simp add: keepLast_def)
  next
    case (Suc k)
    with lt have "Suc (length h) - c = Suc (length h - c)" by simp
    moreover from lt Suc have "Suc (length h - (length h - c)) - c = Suc 0" by simp
    ultimately show ?thesis using lt by (simp add: keepLast_def)
  qed
qed

lemma keepLast_suffix_snoc:
  assumes "h = keepLast (length h) rs"
  shows "keepLast c (h @ [r]) = keepLast (length (keepLast c (h @ [r]))) (rs @ [r])"
proof -
  from assms have len: "length h \<le> length rs"
    by (metis length_keepLast min.cobounded2)
  have h: "h = drop (length rs - length h) rs" using assms by (simp add: keepLast_def)
  have "h @ [r] = drop (length rs - length h) (rs @ [r])"
    using h len by simp
  then have "keepLast c (h @ [r]) = drop (Suc (length h) - c) (drop (length rs - length h) (rs @ [r]))"
    by (simp add: keepLast_def)
  also have "\<dots> = drop (Suc (length h) - c + (length rs - length h)) (rs @ [r])"
    by (simp only: drop_drop)
  also have "Suc (length h) - c + (length rs - length h) =
      length (rs @ [r]) - length (keepLast c (h @ [r]))"
    using len by (simp add: length_keepLast min_def)
  finally have "keepLast c (h @ [r]) =
      drop (length (rs @ [r]) - length (keepLast c (h @ [r]))) (rs @ [r])" .
  then show ?thesis
    unfolding keepLast_def [of "length (keepLast c (h @ [r]))" "rs @ [r]"] .
qed

lemma keepLast_suffix_trim:
  assumes "h = keepLast (length h) rs"
  shows "keepLast c h = keepLast (length (keepLast c h)) rs"
proof -
  from assms have len: "length h \<le> length rs"
    by (metis length_keepLast min.cobounded2)
  have h: "h = drop (length rs - length h) rs" using assms by (simp add: keepLast_def)
  have "keepLast c h = drop (length h - c) (drop (length rs - length h) rs)"
    using h by (simp add: keepLast_def)
  also have "\<dots> = drop (length h - c + (length rs - length h)) rs"
    by (simp only: drop_drop)
  also have "length h - c + (length rs - length h) = length rs - length (keepLast c h)"
    using len by (simp add: length_keepLast min_def)
  finally have "keepLast c h = drop (length rs - length (keepLast c h)) rs" .
  then show ?thesis
    unfolding keepLast_def [of "length (keepLast c h)" rs] .
qed


lemma historyOf_recordTransfer:
  "historyOf (recordTransfer now device ep d inp st pa) device' =
     (if device' = device
      then keepLast (analyzer_maxHistorySize pa)
             (historyOf pa device @
                [\<lparr>tr_timestamp = now, endpointAddress = ep, data = d, isInput = inp, status = st\<rparr>])
      else historyOf pa device')"
  by (simp add: recordTransfer_def historyOf_def Let_def pop_front_while_over_keepLast)

lemma historyOf_setMaxHistorySize:
  "historyOf (setMaxHistorySize n pa) device = keepLast n (historyOf pa device)"
  by (cases "transferHistory pa device")
     (simp_all add: setMaxHistorySize_def historyOf_def pop_front_while_over_keepLast keepLast_def)

lemma maxHistorySize_ops [simp]:
  "analyzer_maxHistorySize (recordTransfer now device ep d inp st pa) = analyzer_maxHistorySize pa"
  "analyzer_maxHistorySize (setMaxHistorySize n pa) = n"
  by (simp_all add: recordTransfer_def setMaxHistorySize_def Let_def)

lemma applyOp_historiesFifo:
  assumes "historiesFifo pa R"
  shows "historiesFifo (applyOp op pa) (\<lambda>device. R device @ recorded device [op])"
proof (cases op)
  case (RecordTransfer now device ep d inp st)
  let ?r = "\<lparr>tr_timestamp = now, endpointAddress = ep, data = d, isInput = inp, status = st\<rparr>"
  let ?c = "analyzer_maxHistorySize pa"
  have cap: "analyzer_maxHistorySize (applyOp op pa) = ?c"
    by (simp add: RecordTransfer)
  show ?thesis
    unfolding historiesFifo_def cap
  proof (intro allI)
    fix device'
    from assms have h: "historyOf pa device' = keepLast (length (historyOf pa device')) (R device')"
      and l: "length (historyOf pa device') \<le> ?c"
      by (simp_all add: historiesFifo_def)
    show "length (historyOf (applyOp op pa) device') \<le> ?c \<and>
       historyOf (applyOp op pa) device' =
       keepLast (length (historyOf (applyOp op pa) device')) (R device' @ recorded device' [op])"
    proof (cases "device' = device")
      case True
      have new: "historyOf (applyOp op pa) device' = keepLast ?c (historyOf pa device' @ [?r])"
        by (simp add: RecordTransfer historyOf_recordTransfer True)
      have rec: "recorded device' [op] = [?r]"
        by (simp add: RecordTransfer True)
      have "length (keepLast ?c (historyOf pa device' @ [?r])) \<le> ?c"
        by (simp add: length_keepLast)
      with keepLast_suffix_snoc [OF h, of ?c ?r] show ?thesis
        unfolding new rec by (rule conjI [rotated])
    next
      case False
      have same: "historyOf (applyOp op pa) device' = historyOf pa device'"
        by (simp add: RecordTransfer historyOf_recordTransfer False)
      have rec: "recorded device' [op] = []"
        using False by (simp add: RecordTransfer)
      from h l show ?thesis
        unfolding same rec by simp
    qed
  qed
next
  case (SetMaxHistorySize n)
  have cap: "analyzer_maxHistorySize (applyOp op pa) = n"
    by (simp add: SetMaxHistorySize)
  show ?thesis
    unfolding historiesFifo_def cap
  proof (intro allI)
    fix device'
    from assms have h: "historyOf pa device' = keepLast (length (historyOf pa device')) (R device')"
      by (simp add: historiesFifo_def)
    have new: "historyOf (applyOp op pa) device' = keepLast n (historyOf pa device')"
      by (simp add: SetMaxHistorySize historyOf_setMaxHistorySize)
    have rec: "recorded device' [op] = []"
      by (simp add: SetMaxHistorySize)
    have "length (keepLast n (historyOf pa device')) \<le> n"
      by (simp add: length_keepLast)
    with keepLast_suffix_trim [OF h, of n]
    show "length (historyOf (applyOp op pa) device') \<le> n \<and>
       historyOf (applyOp op pa) device' =
       keepLast (length (historyOf (applyOp op pa) device')) (R device' @ recorded device' [op])"
      unfolding new rec by simp
  qed
qed

lemma recorded_Cons: "recorded device (op # ops) = recorded device [op] @ recorded device ops"
  by (cases op) simp_all

lemma runOps_historiesFifo:
  "historiesFifo pa R \<Longrightarrow> historiesFifo (runOps ops pa) (\<lambda>device. R device @ recorded device ops)"
proof (induction ops arbitrary: pa R)
  case Nil
  then show ?case by simp
next
  case (Cons op ops)
  from Cons.IH [OF applyOp_historiesFifo [OF Cons.prems, of op]]
  show ?case by (simp add: recorded_Cons [of _ op ops])
qed

lemma historiesFifo_new: "historiesFifo ProtocolAnalyzer_new (\<lambda>device. [])"
  by (simp add: historiesFifo_def historyOf_def ProtocolAnalyzer_new_def keepLast_def)

lemma runOps_append: "runOps (ops @ ops') pa = runOps ops' (runOps ops pa)"
  by (induction ops arbitrary: pa) simp_all

lemma runOps_records_cap:
  "analyzer_maxHistorySize (runOps (map (recordOp device) rs) pa) = analyzer_maxHistorySize pa"
  by (induction rs arbitrary: pa) (simp_all add: recordOp_def)

lemma TransferRecord_eta:
  "\<lparr>tr_timestamp = tr_timestamp r, endpointAddress = endpointAddress r, data = data r,
    isInput = isInput r, status = status r\<rparr> = (r :: TransferRecord)"
  by (cases r) simp

lemma runOps_records:
  assumes "length (historyOf pa device) \<le> analyzer_maxHistorySize pa"
  shows "historyOf (runOps (map (recordOp device) rs) pa) device =
     keepLast (analyzer_maxHistorySize pa) (historyOf pa device @ rs)"
proof (induction rs rule: rev_induct)
  case Nil
  from assms show ?case by (simp add: keepLast_def)
next
  case (snoc r rs)
  have "historyOf (runOps (map (recordOp device) (rs @ [r])) pa) device =
      historyOf (applyOp (recordOp device r) (runOps (map (recordOp device) rs) pa)) device"
    by (simp add: runOps_append)
  also have "\<dots> = keepLast (analyzer_maxHistorySize (runOps (map (recordOp device) rs) pa))
        (historyOf (runOps (map (recordOp device) rs) pa) device @ [r])"
    by (simp add: recordOp_def historyOf_recordTransfer TransferRecord_eta)
  also have "\<dots> = keepLast (analyzer_maxHistorySize pa)
        (keepLast (analyzer_maxHistorySize pa) (historyOf pa device @ rs) @ [r])"
    by (simp only: runOps_records_cap snoc.IH)
  also have "\<dots> = keepLast (analyzer_maxHistorySize pa) (historyOf pa device @ rs @ [r])"
    by (simp add: keepLast_keepLast_snoc)
  finally show ?case .
qed

lemma runOps_records_Some:
  assumes "rs \<noteq> []"
  shows "transferHistory (runOps (map (recordOp device) rs) pa) device =
     Some (historyOf (runOps (map (recordOp device) rs) pa) device)"
proof -
  from assms obtain rs' r where rs: "rs = rs' @ [r]" by (cases rs rule: rev_cases) auto
  have "runOps (map (recordOp device) rs) pa =
      applyOp (recordOp device r) (runOps (map (recordOp device) rs') pa)"
    by (simp add: rs runOps_append)
  then show ?thesis
    by (simp add: recordOp_def recordTransfer_def historyOf_def Let_def)
qed


text \<open>
  C5. After any sequence of \<open>recordTransfer\<close> and \<open>setMaxHistorySize\<close> operations on a
  fresh analyzer (cap 1000), every per-device history holds at most the configured maximum
  of records, and they are the most recently appended records of that device, oldest first.
  \<open>setMaxHistorySize\<close> sets the cap and trims every existing history to its newest
  records. Appending records at the default cap leaves the newest 1000 of them; of 1500
  records, the last 1000.
\<close>

theorem transfer_history_is_bounded_fifo:
  "(\<forall>device h. transferHistory (runOps ops ProtocolAnalyzer_new) device = Some h \<longrightarrow>
       length h \<le> analyzer_maxHistorySize (runOps ops ProtocolAnalyzer_new) \<and>
       h = keepLast (length h) (recorded device ops)) \<and>
   analyzer_maxHistorySize ProtocolAnalyzer_new = 1000 \<and>
   (\<forall>device h. transferHistory pa device = Some h \<longrightarrow>
       transferHistory (setMaxHistorySize n pa) device = Some (keepLast n h)) \<and>
   analyzer_maxHistorySize (setMaxHistorySize n pa) = n \<and>
   (rs \<noteq> [] \<longrightarrow>
       transferHistory (runOps (map (recordOp d) rs) ProtocolAnalyzer_new) d =
         Some (keepLast 1000 rs)) \<and>
   (length rs = 1500 \<longrightarrow>
       transferHistory (runOps (map (recordOp d) rs) ProtocolAnalyzer_new) d =
         Some (drop 500 rs) \<and> length (drop 500 rs) = 1000)"
proof -
  have fifo: "historiesFifo (runOps ops ProtocolAnalyzer_new) (\<lambda>device. recorded device ops)"
    using runOps_historiesFifo [OF historiesFifo_new, of ops] by simp
  have a: "\<forall>device h. transferHistory (runOps ops ProtocolAnalyzer_new) device = Some h \<longrightarrow>
       length h \<le> analyzer_maxHistorySize (runOps ops ProtocolAnalyzer_new) \<and>
       h = keepLast (length h) (recorded device ops)"
  proof (intro allI impI)
    fix device h
    assume "transferHistory (runOps ops ProtocolAnalyzer_new) device = Some h"
    then have "historyOf (runOps ops ProtocolAnalyzer_new) device = h"
      by (simp add: historyOf_def)
    with fifo show "length h \<le> analyzer_maxHistorySize (runOps ops ProtocolAnalyzer_new) \<and>
       h = keepLast (length h) (recorded device ops)"
      unfolding historiesFifo_def by blast
  qed
  have b: "analyzer_maxHistorySize ProtocolAnalyzer_new = 1000"
    by (simp add: ProtocolAnalyzer_new_def)
  have c: "\<forall>device h. transferHistory pa device = Some h \<longrightarrow>
       transferHistory (setMaxHistorySize n pa) device = Some (keepLast n h)"
    by (simp add: setMaxHistorySize_def pop_front_while_over_keepLast)
  have d: "analyzer_maxHistorySize (setMaxHistorySize n pa) = n"
    by simp
  have new: "historyOf ProtocolAnalyzer_new d = []"
    by (simp add: historyOf_def ProtocolAnalyzer_new_def)
  have hist: "historyOf (runOps (map (recordOp d) rs) ProtocolAnalyzer_new) d = keepLast 1000 rs"
    using runOps_records [of ProtocolAnalyzer_new d rs] by (simp add: new b)
  have e: "rs \<noteq> [] \<Longrightarrow>
       transferHistory (runOps (map (recordOp d) rs) ProtocolAnalyzer_new) d =
         Some (keepLast 1000 rs)"
    using runOps_records_Some [of rs d ProtocolAnalyzer_new] by (simp add: hist)
  have f: "length rs = 1500 \<Longrightarrow>
       transferHistory (runOps (map (recordOp d) rs) ProtocolAnalyzer_new) d =
         Some (drop 500 rs) \<and> length (drop 500 rs) = 1000"
  proof -
    assume l: "length rs = 1500"
    then have "rs \<noteq> []" by auto
    from e [OF this] l show ?thesis by (simp add: keepLast_def)
  qed
  from a b c d e f show ?thesis by blast
qed

theorem transfer_history_is_bounded_fifo_witness:
  "transferHistory (runOps [RecordTransfer 1 7 0x81 [] True 0, SetMaxHistorySize 1,
       RecordTransfer 2 7 0x81 [] True 0] ProtocolAnalyzer_new) 7 = Some [example_record 2] \<and>
   [example_record 2] = keepLast (length [example_record 2])
       (recorded 7 [RecordTransfer 1 7 0x81 [] True 0, SetMaxHistorySize 1,
       RecordTransfer 2 7 0x81 [] True 0]) \<and>
   transferHistory (runOps [RecordTransfer 1 7 0x81 [] True 0, RecordTransfer 2 7 0x81 [] True 0]
       ProtocolAnalyzer_new) 7 = Some [example_record 1, example_record 2] \<and>
   transferHistory (setMaxHistorySize 1 (runOps [RecordTransfer 1 7 0x81 [] True 0,
       RecordTransfer 2 7 0x81 [] True 0] ProtocolAnalyzer_new)) 7 =
     Some (keepLast 1 [example_record 1, example_record 2]) \<and>
   length (map example_record [0..<1500]) = 1500 \<and>
   map example_record [0..<1500] \<noteq> [] \<and>
   transferHistory (runOps (map (recordOp 7) (map example_record [0..<1500]))
       ProtocolAnalyzer_new) 7 = Some (map example_record [500..<1500])"
proof -
  let ?ops = "[RecordTransfer 1 7 0x81 [] True 0, SetMaxHistorySize 1,
       RecordTransfer 2 7 0x81 [] True 0]"
  let ?two = "runOps [RecordTransfer 1 7 0x81 [] True 0, RecordTransfer 2 7 0x81 [] True 0]
       ProtocolAnalyzer_new"
  have h1: "transferHistory (runOps ?ops ProtocolAnalyzer_new) 7 = Some [example_record 2]"
    by (simp add: recordTransfer_def setMaxHistorySize_def ProtocolAnalyzer_new_def historyOf_def
        Let_def pop_front_while_over_eq_drop example_record_def)
  have h2: "transferHistory ?two 7 = Some [example_record 1, example_record 2]"
    by (simp add: recordTransfer_def ProtocolAnalyzer_new_def historyOf_def
        Let_def pop_front_while_over_eq_drop example_record_def)
  have h3: "length (map example_record [0..<1500]) = 1500" by simp
  have h4: "map example_record [0..<1500] \<noteq> []" by simp
  note t1 = transfer_history_is_bounded_fifo [of ?ops ?two 1 "map example_record [0..<1500]" 7]
  from t1 h1 have c1: "[example_record 2] = keepLast (length [example_record 2]) (recorded 7 ?ops)"
    by blast
  from t1 h2 have c2: "transferHistory (setMaxHistorySize 1 ?two) 7 =
     Some (keepLast 1 [example_record 1, example_record 2])"
    by blast
  from t1 h3 have "transferHistory (runOps (map (recordOp 7) (map example_record [0..<1500]))
       ProtocolAnalyzer_new) 7 = Some (drop 500 (map example_record [0..<1500]))"
    by blast
  then have c3: "transferHistory (runOps (map (recordOp 7) (map example_record [0..<1500]))
       ProtocolAnalyzer_new) 7 = Some (map example_record [500..<1500])"
    by (simp add: drop_map)
  from h1 c1 h2 c2 h3 h4 c3 show ?thesis by blast
qed

subsection \<open>Error-rate threshold\<close>

lemma fl_positive: "0 < x \<Longrightarrow> fl x = fl_pos x"
  by (simp add: fl_def)

lemma fl_one_tenth: "fl (1 / 10) = 7205759403792794 * 2 powi (- 56)"
proof -
  have "fl_pos (1 / 10) = of_int 7205759403792794 * 2 powi (- 56)"
    by (rule fl_pos_eqI) simp_all
  then show ?thesis by (simp add: fl_def)
qed

lemma fl_pos_below_threshold:
  assumes "0 < q" and "q \<le> 1 / 10"
  shows "fl_pos q \<le> fl (1 / 10)"
proof -
  have "q \<le> of_int 7205759403792794 * 2 powi (- 56)"
    using assms(2) by simp
  then have "fl_pos q \<le> of_int 7205759403792794 * 2 powi (- 56)"
    by (rule fl_pos_le [rotated 3]) (simp_all add: assms(1))
  then show ?thesis by (simp only: fl_one_tenth of_int_numeral)
qed

lemma fl_pos_above_threshold:
  assumes "of_int 7205759403792795 * 2 powi (- 56) \<le> q"
  shows "fl (1 / 10) < fl_pos q"
proof -
  have "of_int 7205759403792795 * 2 powi (- 56) \<le> fl_pos q"
    by (rule fl_pos_ge [OF _ _ assms]) simp_all
  moreover have "fl (1 / 10) < of_int 7205759403792795 * 2 powi (- 56)"
    by (simp add: fl_one_tenth)
  ultimately show ?thesis by linarith
qed

lemma rate_exceeds_tenth_iff:
  assumes e: "0 < e" and f: "e \<le> f" "f < 2 ^ 31"
  shows "fl (fl (of_int (int e)) / fl (of_nat f)) > fl (1 / 10) \<longleftrightarrow> f < 10 * e"
proof -
  from e f have f0: "0 < f" by simp
  have e53: "e < 2 ^ 53" and f53: "f < 2 ^ 53" using f by simp_all
  have ce: "fl (of_nat e) = of_nat e" by (rule fl_of_nat [OF e53])
  have cf: "fl (of_nat f) = of_nat f" by (rule fl_of_nat [OF f53])
  let ?q = "of_nat e / of_nat f :: rat"
  from e f0 have q0: "0 < ?q" by simp
  then have flq: "fl ?q = fl_pos ?q" by (rule fl_positive)
  have fr: "(0::rat) < of_nat f" using f0 by simp
  show ?thesis
  proof (cases "f < 10 * e")
    case True
    then have "f + 1 \<le> 10 * e" by simp
    then have "(of_nat (f + 1) :: rat) \<le> of_nat (10 * e)" by (simp only: of_nat_le_iff)
    then have le: "(of_nat f + 1 :: rat) \<le> 10 * of_nat e" by simp
    have "(of_nat f :: rat) < of_nat (2 ^ 31)" using f(2) by (simp only: of_nat_less_iff)
    then have f31: "(of_nat f :: rat) < 2 ^ 31" by simp
    have "of_int 7205759403792795 * 2 powi (- 56) * (of_nat f :: rat) \<le> (of_nat f + 1) / 10"
      using f31 fr by simp
    also have "\<dots> \<le> of_nat e" using le by simp
    finally have "of_int 7205759403792795 * 2 powi (- 56) \<le> ?q"
      using fr by (simp add: pos_le_divide_eq)
    from fl_pos_above_threshold [OF this] True show ?thesis
      by (simp add: ce cf flq)
  next
    case False
    then have "10 * e \<le> f" by simp
    then have "(of_nat (10 * e) :: rat) \<le> of_nat f" by (simp only: of_nat_le_iff)
    then have "10 * (of_nat e :: rat) \<le> of_nat f" by simp
    then have "?q \<le> 1 / 10" using fr by (simp add: pos_divide_le_eq)
    from fl_pos_below_threshold [OF q0 this] False show ?thesis
      by (simp add: ce cf flq)
  qed
qed


lemma set_byte_keys: "set (byte_keys m) = dom m"
proof -
  have "k \<in> set (map of_nat [0..<256])" for k :: "8 word"
  proof -
    have "unat k < 256" using unsigned_less [of k, where ?'a = nat] by simp
    then have "unat k \<in> set [0..<256]" by simp
    then have "of_nat (unat k) \<in> set (map (of_nat :: nat \<Rightarrow> 8 word) [0..<256])"
      unfolding set_map by (rule imageI)
    then show ?thesis by simp
  qed
  then show ?thesis by (auto simp: byte_keys_def)
qed

lemma tally_frequency:
  "endpointFrequency (tally r s) =
     (endpointFrequency s)(endpointAddress r \<mapsto>
        at_or_zero (endpointFrequency s) (endpointAddress r) + 1)"
  by (simp add: tally_def Let_def)

lemma tally_errors:
  "errorCount (tally r s) =
     (if status r \<noteq> 0
      then (errorCount s)(endpointAddress r \<mapsto> at_or_zero (errorCount s) (endpointAddress r) + 1)
      else errorCount s)"
  by (simp add: tally_def Let_def)

lemma fold_tally_frequency:
  "endpointFrequency (fold tally h s) k =
     (if transfersOn h k = 0 then endpointFrequency s k
      else Some (at_or_zero (endpointFrequency s) k + transfersOn h k))"
proof (induction h arbitrary: s)
  case Nil
  then show ?case by (simp add: transfersOn_def)
next
  case (Cons r h)
  have step: "transfersOn (r # h) k =
      (if endpointAddress r = k then Suc (transfersOn h k) else transfersOn h k)"
    by (simp add: transfersOn_def)
  have "endpointFrequency (fold tally (r # h) s) k =
      (if transfersOn h k = 0 then endpointFrequency (tally r s) k
       else Some (at_or_zero (endpointFrequency (tally r s)) k + transfersOn h k))"
    by (simp only: fold_simps Cons.IH)
  then show ?case
    unfolding step tally_frequency by (simp add: at_or_zero_def)
qed

lemma fold_tally_errors:
  "errorCount (fold tally h s) k =
     (if failuresOn h k = 0 then errorCount s k
      else Some (at_or_zero (errorCount s) k + int (failuresOn h k)))"
proof (induction h arbitrary: s)
  case Nil
  then show ?case by (simp add: failuresOn_def)
next
  case (Cons r h)
  have step: "failuresOn (r # h) k =
      (if endpointAddress r = k \<and> status r \<noteq> 0 then Suc (failuresOn h k) else failuresOn h k)"
    by (simp add: failuresOn_def)
  have "errorCount (fold tally (r # h) s) k =
      (if failuresOn h k = 0 then errorCount (tally r s) k
       else Some (at_or_zero (errorCount (tally r s)) k + int (failuresOn h k)))"
    by (simp only: fold_simps Cons.IH)
  then show ?case
    unfolding step tally_errors by (simp add: at_or_zero_def)
qed

lemma failuresOn_le: "failuresOn h k \<le> transfersOn h k"
proof -
  have "filter (\<lambda>r. endpointAddress r = k \<and> status r \<noteq> 0) h =
        filter (\<lambda>r. status r \<noteq> 0) (filter (\<lambda>r. endpointAddress r = k) h)"
    by (simp add: conj_commute)
  then show ?thesis
    unfolding failuresOn_def transfersOn_def by (metis length_filter_le)
qed

lemma transfersOn_le: "transfersOn h k \<le> length h"
  by (simp add: transfersOn_def)

lemma problematic_iff:
  assumes "length h < 2 ^ 31"
  shows "k \<in> set (filter (\<lambda>k. errorRate (fold tally h TransferStatistics_empty) k > fl (1 / 10))
                     (byte_keys (errorCount (fold tally h TransferStatistics_empty)))) \<longleftrightarrow>
         transfersOn h k < 10 * failuresOn h k"
proof -
  let ?s = "fold tally h TransferStatistics_empty"
  have freq: "at_or_zero (endpointFrequency ?s) k = transfersOn h k"
    by (simp add: fold_tally_frequency at_or_zero_def TransferStatistics_empty_def)
  have err: "at_or_zero (errorCount ?s) k = int (failuresOn h k)"
    by (simp add: fold_tally_errors at_or_zero_def TransferStatistics_empty_def)
  have key: "k \<in> dom (errorCount ?s) \<longleftrightarrow> 0 < failuresOn h k"
    by (simp add: fold_tally_errors TransferStatistics_empty_def dom_def)
  show ?thesis
  proof (cases "0 < failuresOn h k")
    case True
    from transfersOn_le [of h k] assms have "transfersOn h k < 2 ^ 31" by simp
    from rate_exceeds_tenth_iff [OF True failuresOn_le this]
    show ?thesis
      using True by (simp add: set_byte_keys key errorRate_def freq err)
  next
    case False
    then show ?thesis by (simp add: set_byte_keys key)
  qed
qed

text \<open>
  C6. In an evaluation over a non-empty transfer history, an endpoint is in
  \<open>problematicEndpoints\<close> if and only if it has transfers and its error rate, the transfers
  with non-zero status divided by all transfers of the endpoint, is strictly above 1/10.
  The history is shorter than \<open>2^31\<close> records, the range of the \<open>int\<close> error counters.
\<close>

theorem problematic_iff_error_rate_above_tenth:
  assumes "transferHistory pa device = Some h" and "h \<noteq> []" and "length h < 2 ^ 31"
  shows "\<exists>pattern. analyzeTransferPatterns now device pa = Some pattern \<and>
           (\<forall>ep. ep \<in> set (problematicEndpoints pattern) \<longleftrightarrow>
                   0 < transfersOn h ep \<and>
                   (1 / 10 :: rat) < of_nat (failuresOn h ep) / of_nat (transfersOn h ep))"
proof -
  have rate: "(0 < transfersOn h ep \<and>
        (1 / 10 :: rat) < of_nat (failuresOn h ep) / of_nat (transfersOn h ep)) \<longleftrightarrow>
      transfersOn h ep < 10 * failuresOn h ep" for ep
  proof (cases "0 < transfersOn h ep")
    case True
    then have t: "(0::rat) < of_nat (transfersOn h ep)" by simp
    have "(1 / 10 :: rat) < of_nat (failuresOn h ep) / of_nat (transfersOn h ep) \<longleftrightarrow>
        (of_nat (transfersOn h ep) :: rat) < 10 * of_nat (failuresOn h ep)"
      using t by (simp add: pos_less_divide_eq mult.commute)
    also have "\<dots> \<longleftrightarrow> (of_nat (transfersOn h ep) :: rat) < of_nat (10 * failuresOn h ep)"
      by simp
    also have "\<dots> \<longleftrightarrow> transfersOn h ep < 10 * failuresOn h ep"
      by (simp only: of_nat_less_iff)
    finally show ?thesis using True by simp
  next
    case False
    with failuresOn_le [of h ep] show ?thesis by simp
  qed
  from assms(1,2) have "analyzeTransferPatterns now device pa =
      Some \<lparr>pattern_timestamp = now, pattern_device = device,
        primaryEndpoint =
          map_option fst
            (max_element (map (\<lambda>k. (k, at_or_zero (endpointFrequency (fold tally h TransferStatistics_empty)) k))
               (byte_keys (endpointFrequency (fold tally h TransferStatistics_empty))))),
        hasRegularTransferSizes =
          regularSizes 0 (map (at_or_zero (normalizeSizes (fold tally h TransferStatistics_empty)))
             (byte_keys (normalizeSizes (fold tally h TransferStatistics_empty)))),
        problematicEndpoints =
          filter (\<lambda>k. errorRate (fold tally h TransferStatistics_empty) k > fl (1 / 10))
            (byte_keys (errorCount (fold tally h TransferStatistics_empty)))\<rparr>"
    by (simp add: analyzeTransferPatterns_def Let_def)
  then show ?thesis
    using problematic_iff [OF assms(3)] rate by simp
qed


lemma example_history_counts:
  "n \<le> 100 \<Longrightarrow> transfersOn (example_history n) 0x81 = 100"
  "n \<le> 100 \<Longrightarrow> failuresOn (example_history n) 0x81 = n"
  "n \<le> 100 \<Longrightarrow> length (example_history n) = 100"
  by (simp_all add: transfersOn_def failuresOn_def example_history_def example_record_def)

theorem problematic_iff_error_rate_above_tenth_witness:
  "transferHistory (example_analyzer 11) 7 = Some (example_history 11) \<and>
   example_history 11 \<noteq> [] \<and> length (example_history 11) < 2 ^ 31 \<and>
   (\<exists>pattern. analyzeTransferPatterns 0 7 (example_analyzer 11) = Some pattern \<and>
      0x81 \<in> set (problematicEndpoints pattern)) \<and>
   transferHistory (example_analyzer 10) 7 = Some (example_history 10) \<and>
   example_history 10 \<noteq> [] \<and> length (example_history 10) < 2 ^ 31 \<and>
   (\<exists>pattern. analyzeTransferPatterns 0 7 (example_analyzer 10) = Some pattern \<and>
      0x81 \<notin> set (problematicEndpoints pattern))"
proof -
  have a1: "transferHistory (example_analyzer 11) 7 = Some (example_history 11)"
    by (simp add: example_analyzer_def)
  have a2: "example_history 11 \<noteq> []"
    using example_history_counts(3) [of 11] by auto
  have a3: "length (example_history 11) < 2 ^ 31"
    by (simp add: example_history_counts(3))
  have b1: "transferHistory (example_analyzer 10) 7 = Some (example_history 10)"
    by (simp add: example_analyzer_def)
  have b2: "example_history 10 \<noteq> []"
    using example_history_counts(3) [of 10] by auto
  have b3: "length (example_history 10) < 2 ^ 31"
    by (simp add: example_history_counts(3))
  from problematic_iff_error_rate_above_tenth [OF a1 a2 a3, of 0]
  obtain p where p: "analyzeTransferPatterns 0 7 (example_analyzer 11) = Some p"
    and pi: "0x81 \<in> set (problematicEndpoints p) \<longleftrightarrow>
       0 < transfersOn (example_history 11) 0x81 \<and>
       (1 / 10 :: rat) < of_nat (failuresOn (example_history 11) 0x81) /
                          of_nat (transfersOn (example_history 11) 0x81)"
    by blast
  from pi have c1: "0x81 \<in> set (problematicEndpoints p)"
    by (simp add: example_history_counts)
  from problematic_iff_error_rate_above_tenth [OF b1 b2 b3, of 0]
  obtain q where q: "analyzeTransferPatterns 0 7 (example_analyzer 10) = Some q"
    and qi: "0x81 \<in> set (problematicEndpoints q) \<longleftrightarrow>
       0 < transfersOn (example_history 10) 0x81 \<and>
       (1 / 10 :: rat) < of_nat (failuresOn (example_history 10) 0x81) /
                          of_nat (transfersOn (example_history 10) 0x81)"
    by blast
  from qi have c2: "0x81 \<notin> set (problematicEndpoints q)"
    by (simp add: example_history_counts)
  from a1 a2 a3 p c1 b1 b2 b3 q c2 show ?thesis by blast
qed

subsection \<open>Bandwidth window and speed\<close>

lemma trunc_div_pos: "0 \<le> a \<Longrightarrow> 0 < b \<Longrightarrow> trunc_div a b = a div b"
  by (simp add: trunc_div_def)

lemma trunc_div_neg: "a < 0 \<Longrightarrow> 0 < b \<Longrightarrow> trunc_div a b = - ((- a) div b)"
  by (simp add: trunc_div_def)

lemma trunc_div_mono:
  assumes b: "0 < b" and le: "a \<le> a'"
  shows "trunc_div a b \<le> trunc_div a' b"
proof (cases "0 \<le> a")
  case True
  with le have "0 \<le> a'" by simp
  with True b le show ?thesis by (simp add: trunc_div_pos zdiv_mono1)
next
  case False
  then have a: "a < 0" by simp
  show ?thesis
  proof (cases "0 \<le> a'")
    case True
    from a b have "0 \<le> (- a) div b" by (simp add: pos_imp_zdiv_nonneg_iff)
    moreover from True b have "0 \<le> a' div b" by (simp add: pos_imp_zdiv_nonneg_iff)
    ultimately show ?thesis using a b True by (simp add: trunc_div_pos trunc_div_neg)
  next
    case False
    then have a': "a' < 0" by simp
    from le have "- a' \<le> - a" by simp
    then have "(- a') div b \<le> (- a) div b" using b by (rule zdiv_mono1)
    then show ?thesis using a a' b by (simp add: trunc_div_neg)
  qed
qed

lemma duration_cast_milliseconds_mono:
  "d \<le> d' \<Longrightarrow> duration_cast_milliseconds d \<le> duration_cast_milliseconds d'"
  unfolding duration_cast_milliseconds_def by (rule trunc_div_mono) simp_all

lemma pruneWindow_suffix: "\<exists>k. pruneWindow now h = drop k h"
proof (induction h)
  case Nil
  then show ?case by simp
next
  case (Cons s rest)
  show ?case
  proof (cases "duration_cast_milliseconds (now - fst s) > BANDWIDTH_WINDOW")
    case True
    from Cons.IH obtain k where "pruneWindow now rest = drop k rest" by blast
    with True have "pruneWindow now (s # rest) = drop (Suc k) (s # rest)" by simp
    then show ?thesis by blast
  next
    case False
    then have "pruneWindow now (s # rest) = drop 0 (s # rest)" by simp
    then show ?thesis by blast
  qed
qed

lemma pruneWindow_within:
  assumes "timeOrdered h"
  shows "\<forall>s \<in> set (pruneWindow now h). duration_cast_milliseconds (now - fst s) \<le> BANDWIDTH_WINDOW"
  using assms
proof (induction h)
  case Nil
  then show ?case by simp
next
  case (Cons s rest)
  from Cons.prems have ord: "timeOrdered rest" and later: "\<forall>s' \<in> set rest. fst s \<le> fst s'"
    by (auto simp: timeOrdered_def)
  show ?case
  proof (cases "duration_cast_milliseconds (now - fst s) > BANDWIDTH_WINDOW")
    case True
    with Cons.IH [OF ord] show ?thesis by simp
  next
    case False
    have "duration_cast_milliseconds (now - fst s') \<le> BANDWIDTH_WINDOW" if "s' \<in> set rest" for s'
    proof -
      from later that have "now - fst s' \<le> now - fst s" by simp
      from duration_cast_milliseconds_mono [OF this] False show ?thesis by simp
    qed
    with False show ?thesis by simp
  qed
qed

lemma pruneWindow_keeps_last:
  assumes "duration_cast_milliseconds (now - fst s) \<le> BANDWIDTH_WINDOW"
  shows "pruneWindow now (h @ [s]) \<noteq> [] \<and> last (pruneWindow now (h @ [s])) = s"
  using assms by (induction h) simp_all

lemma timeOrdered_drop: "timeOrdered h \<Longrightarrow> timeOrdered (drop k h)"
  unfolding timeOrdered_def by (simp add: drop_map [symmetric] sorted_wrt_drop)

lemma timeOrdered_snoc:
  assumes "timeOrdered h" and "\<forall>s \<in> set h. fst s \<le> t"
  shows "timeOrdered (h @ [(t, b)])"
  using assms by (auto simp: timeOrdered_def sorted_append)


lemma fl_sign:
  shows "0 < x \<Longrightarrow> 0 < fl x" and "x \<le> 0 \<Longrightarrow> fl x \<le> 0"
proof -
  from fl_relative_error [of x] obtain \<delta> where d: "\<bar>\<delta>\<bar> \<le> 1 / 2 ^ 53" and e: "fl x = x * (1 + \<delta>)"
    by blast
  from d have p: "0 < 1 + \<delta>" by (simp add: abs_le_iff)
  show "0 < x \<Longrightarrow> 0 < fl x" using p by (simp add: e)
  show "x \<le> 0 \<Longrightarrow> fl x \<le> 0" using p by (simp add: e mult_le_0_iff)
qed

lemma fl_numeral: "numeral n < (2::nat) ^ 53 \<Longrightarrow> fl (numeral n) = numeral n"
  using fl_of_nat [of "numeral n"] by simp

lemma fl_one: "fl 1 = 1"
  using fl_of_nat [of 1] by simp

lemma fl_of_int_nonneg:
  assumes "0 \<le> i" and "i < 2 ^ 53"
  shows "fl (of_int i) = of_int i"
proof -
  from assms(2) have "nat i < 2 ^ 53" using assms(1) by (simp add: nat_less_iff)
  from fl_of_nat [OF this] assms(1) show ?thesis by simp
qed

lemma calculateSpeed_zero:
  assumes "length h < 2 \<or> elapsedMs h \<le> 0"
  shows "calculateSpeed h = 0"
proof (cases "length h < 2")
  case True
  then show ?thesis by (simp add: calculateSpeed_def)
next
  case False
  with assms have "elapsedMs h \<le> 0" by simp
  then have "(of_int (elapsedMs h) :: rat) \<le> 0" by simp
  then have "fl (of_int (elapsedMs h)) \<le> 0" by (rule fl_sign(2))
  then have "fl (of_int (elapsedMs h)) / 1000 \<le> 0" by simp
  then have "fl (fl (of_int (elapsedMs h)) / 1000) \<le> 0" by (rule fl_sign(2))
  then have "\<not> 0 < fl (fl (of_int (elapsedMs h)) / 1000)" by simp
  then show ?thesis
    unfolding calculateSpeed_def Let_def elapsedMs_def by simp
qed

lemma calculateSpeed_positive:
  assumes len: "2 \<le> length h" and ms: "0 < elapsedMs h" "elapsedMs h < 2 ^ 53"
    and bytes: "byteSpan h < 2 ^ 53"
  shows "\<exists>\<delta> \<epsilon>. \<bar>\<delta>\<bar> \<le> 1 / 2 ^ 53 \<and> \<bar>\<epsilon>\<bar> \<le> 1 / 2 ^ 53 \<and>
           calculateSpeed h =
             of_nat (byteSpan h) / (of_int (elapsedMs h) / 1000) * ((1 + \<delta>) / (1 + \<epsilon>))"
proof -
  let ?t = "of_int (elapsedMs h) / 1000 :: rat"
  have c1: "fl (of_int (elapsedMs h)) = of_int (elapsedMs h)"
    using ms by (intro fl_of_int_nonneg) simp_all
  have c2: "fl (of_nat (byteSpan h)) = of_nat (byteSpan h)"
    by (rule fl_of_nat [OF bytes])
  from ms(1) have t0: "0 < ?t" by simp
  from fl_relative_error [of ?t] obtain \<epsilon>
    where e: "\<bar>\<epsilon>\<bar> \<le> 1 / 2 ^ 53" and te: "fl ?t = ?t * (1 + \<epsilon>)" by blast
  from fl_relative_error [of "of_nat (byteSpan h) / fl ?t"] obtain \<delta>
    where d: "\<bar>\<delta>\<bar> \<le> 1 / 2 ^ 53"
      and se: "fl (of_nat (byteSpan h) / fl ?t) = of_nat (byteSpan h) / fl ?t * (1 + \<delta>)" by blast
  have pos: "0 < fl ?t" by (rule fl_sign(1) [OF t0])
  have "calculateSpeed h = fl (of_nat (byteSpan h) / fl ?t)"
    using len pos
    unfolding calculateSpeed_def Let_def elapsedMs_def [symmetric] byteSpan_def [symmetric] c1 c2
    by simp
  also have "\<dots> = of_nat (byteSpan h) / (?t * (1 + \<epsilon>)) * (1 + \<delta>)"
    by (subst se) (simp only: te)
  also have "\<dots> = of_nat (byteSpan h) / ?t * ((1 + \<delta>) / (1 + \<epsilon>))"
    by simp
  finally show ?thesis using d e by blast
qed

lemma pruneWindow_unchanged:
  assumes "h \<noteq> []" and "duration_cast_milliseconds (now - fst (hd h)) \<le> BANDWIDTH_WINDOW"
  shows "pruneWindow now h = h"
  using assms by (cases h) simp_all

lemma example_window_eq:
  assumes "n \<le> 50"
  shows "example_window n =
     (map (\<lambda>i. (int i * 100000000, 4096 * of_nat (Suc i))) [0..<n], 4096 * of_nat n)"
  using assms
proof (induction n)
  case 0
  show ?case by simp
next
  case (Suc n)
  let ?f = "\<lambda>i. (int i * 100000000, 4096 * of_nat (Suc i) :: 64 word)"
  let ?now = "int n * 100000000"
  let ?h = "map ?f [0..<n] @ [(?now, 4096 * of_nat n + ucast (4096 :: 16 word))]"
  from Suc.prems have n: "n \<le> 50" by simp
  have hd0: "fst (hd ?h) = 0 \<or> fst (hd ?h) = ?now"
    by (cases n) (simp_all add: upt_rec)
  have "?now = (int n * 100) * 1000000" by simp
  then have "?now div 1000000 = int n * 100"
    by (simp only: nonzero_mult_div_cancel_right)
  then have ms: "duration_cast_milliseconds ?now = int n * 100"
    by (simp add: duration_cast_milliseconds_def trunc_div_pos)
  have ms0: "duration_cast_milliseconds 0 = 0"
    by (simp add: duration_cast_milliseconds_def trunc_div_pos)
  have within: "duration_cast_milliseconds (?now - fst (hd ?h)) \<le> BANDWIDTH_WINDOW"
    using hd0 n by (auto simp: ms ms0 BANDWIDTH_WINDOW_def)
  have keep: "pruneWindow ?now ?h = ?h"
    by (rule pruneWindow_unchanged [OF _ within]) simp
  have "example_window (Suc n) = updateTransferStats (map ?f [0..<n]) (4096 * of_nat n) 4096 ?now"
    using Suc.IH [OF n] by simp
  also have "\<dots> = (?h, 4096 * of_nat n + ucast (4096 :: 16 word))"
    unfolding updateTransferStats_def Let_def keep ..
  also have "\<dots> = (map ?f [0..<Suc n], 4096 * of_nat (Suc n))"
  proof -
    have u: "ucast (4096 :: 16 word) = (4096 :: 64 word)" by simp
    have w: "4096 * of_nat n + (4096 :: 64 word) = 4096 * of_nat (Suc n)"
      by (simp only: of_nat_Suc distrib_left mult_1_right add.commute)
    have l: "map ?f [0..<Suc n] = map ?f [0..<n] @ [(?now, 4096 * of_nat (Suc n))]"
      by simp
    show ?thesis unfolding u w l ..
  qed
  finally show ?case .
qed

lemma example_speed: "calculateSpeed (fst (example_window 11)) = 40960"
proof -
  let ?h = "fst (example_window 11)"
  have h: "?h = map (\<lambda>i. (int i * 100000000, 4096 * of_nat (Suc i))) [0..<11]"
    by (simp add: example_window_eq)
  have len: "length ?h = 11" by (simp add: h)
  have first: "hd ?h = (0, 4096)" by (simp add: h upt_rec)
  have final: "last ?h = (1000000000, 45056)"
    unfolding h by (simp add: last_map)
  have ms: "duration_cast_milliseconds (fst (last ?h) - fst (hd ?h)) = 1000"
    by (simp add: first final duration_cast_milliseconds_def trunc_div_pos)
  have bytes: "unat (snd (last ?h) - snd (hd ?h)) = 40960"
    by (simp add: first final)
  show ?thesis
    unfolding calculateSpeed_def Let_def ms bytes
    by (simp add: len fl_numeral fl_one)
qed


lemma updateTransferStats_window:
  assumes ord: "timeOrdered h" and past: "\<forall>s \<in> set h. fst s \<le> now"
  shows "timeOrdered (fst (updateTransferStats h bytes mps now))"
    and "last (fst (updateTransferStats h bytes mps now)) = (now, bytes + ucast mps)"
    and "\<forall>s \<in> set (fst (updateTransferStats h bytes mps now)).
           duration_cast_milliseconds (now - fst s) \<le> BANDWIDTH_WINDOW"
proof -
  let ?new = "(now, bytes + ucast mps)"
  have out: "fst (updateTransferStats h bytes mps now) = pruneWindow now (h @ [?new])"
    by (simp add: updateTransferStats_def Let_def)
  have ord': "timeOrdered (h @ [?new])"
    by (rule timeOrdered_snoc [OF ord past])
  from pruneWindow_suffix [of now "h @ [?new]"] obtain k
    where k: "pruneWindow now (h @ [?new]) = drop k (h @ [?new])" by blast
  show "timeOrdered (fst (updateTransferStats h bytes mps now))"
    unfolding out k by (rule timeOrdered_drop [OF ord'])
  have "duration_cast_milliseconds (now - fst ?new) \<le> BANDWIDTH_WINDOW"
    by (simp add: duration_cast_milliseconds_def trunc_div_pos BANDWIDTH_WINDOW_def)
  from pruneWindow_keeps_last [OF this, of h]
  show "last (fst (updateTransferStats h bytes mps now)) = ?new"
    unfolding out by blast
  show "\<forall>s \<in> set (fst (updateTransferStats h bytes mps now)).
           duration_cast_milliseconds (now - fst s) \<le> BANDWIDTH_WINDOW"
    unfolding out by (rule pruneWindow_within [OF ord'])
qed

text \<open>
  C7 as stated fails where the two ends of the window are less than a millisecond apart:
  for 512 bytes in 999999 ns the stated quotient is above 512000 bytes a second, and the
  computed speed is 0.
\<close>

theorem speed_of_sub_millisecond_window:
  "calculateSpeed [(0, 0), (999999, 512)] = 0 \<and>
   statedSpeed [(0, 0), (999999, 512)] = 512000000000 / 999999"
proof -
  have "elapsedMs [(0, 0), (999999, 512)] = 0"
    by (simp add: elapsedMs_def duration_cast_milliseconds_def trunc_div_pos)
  then have "calculateSpeed [(0, 0), (999999, 512)] = 0"
    by (intro calculateSpeed_zero) simp
  moreover have "statedSpeed [(0, 0), (999999, 512)] = 512000000000 / 999999"
    by (simp add: statedSpeed_def)
  ultimately show ?thesis ..
qed

text \<open>
  C7, amended. \<open>updateTransferStats\<close> keeps a time-ordered window time-ordered, ends it
  with the new sample and leaves no sample more than 5000 whole milliseconds older than the
  tick. The speed of a window is 0 when it holds fewer than two samples or when its first
  and last sample are less than one whole millisecond apart; otherwise it is the byte span
  divided by the elapsed whole milliseconds taken as seconds, up to the two \<open>double\<close>
  roundings of the divisions (byte span and milliseconds below \<open>2^53\<close>). Eleven ticks
  100 ms apart that each add 4096 bytes give exactly 40960 bytes a second.
\<close>

theorem calculateSpeed_law:
  "(timeOrdered h \<and> (\<forall>s \<in> set h. fst s \<le> now) \<longrightarrow>
      timeOrdered (fst (updateTransferStats h bytes mps now)) \<and>
      last (fst (updateTransferStats h bytes mps now)) = (now, bytes + ucast mps) \<and>
      (\<forall>s \<in> set (fst (updateTransferStats h bytes mps now)).
         duration_cast_milliseconds (now - fst s) \<le> 5000)) \<and>
   (length w < 2 \<or> elapsedMs w \<le> 0 \<longrightarrow> calculateSpeed w = 0) \<and>
   (2 \<le> length w \<and> 0 < elapsedMs w \<and> elapsedMs w < 2 ^ 53 \<and> byteSpan w < 2 ^ 53 \<longrightarrow>
      (\<exists>\<delta> \<epsilon>. \<bar>\<delta>\<bar> \<le> 1 / 2 ^ 53 \<and> \<bar>\<epsilon>\<bar> \<le> 1 / 2 ^ 53 \<and>
         calculateSpeed w =
           of_nat (byteSpan w) / (of_int (elapsedMs w) / 1000) * ((1 + \<delta>) / (1 + \<epsilon>)))) \<and>
   calculateSpeed (fst (example_window 11)) = 40960"
proof (intro conjI impI)
  assume a: "timeOrdered h \<and> (\<forall>s \<in> set h. fst s \<le> now)"
  then have ord: "timeOrdered h" and past: "\<forall>s \<in> set h. fst s \<le> now" by blast+
  note u = updateTransferStats_window [OF ord past, of bytes mps]
  show "timeOrdered (fst (updateTransferStats h bytes mps now))" by (rule u(1))
  show "last (fst (updateTransferStats h bytes mps now)) = (now, bytes + ucast mps)" by (rule u(2))
  from u(3) show "\<forall>s \<in> set (fst (updateTransferStats h bytes mps now)).
         duration_cast_milliseconds (now - fst s) \<le> 5000"
    by (simp only: BANDWIDTH_WINDOW_def)
next
  assume "length w < 2 \<or> elapsedMs w \<le> 0"
  then show "calculateSpeed w = 0" by (rule calculateSpeed_zero)
next
  assume "2 \<le> length w \<and> 0 < elapsedMs w \<and> elapsedMs w < 2 ^ 53 \<and> byteSpan w < 2 ^ 53"
  then have "2 \<le> length w" "0 < elapsedMs w" "elapsedMs w < 2 ^ 53" "byteSpan w < 2 ^ 53"
    by blast+
  then show "\<exists>\<delta> \<epsilon>. \<bar>\<delta>\<bar> \<le> 1 / 2 ^ 53 \<and> \<bar>\<epsilon>\<bar> \<le> 1 / 2 ^ 53 \<and>
         calculateSpeed w =
           of_nat (byteSpan w) / (of_int (elapsedMs w) / 1000) * ((1 + \<delta>) / (1 + \<epsilon>))"
    by (rule calculateSpeed_positive)
next
  show "calculateSpeed (fst (example_window 11)) = 40960" by (rule example_speed)
qed

lemma example_window_2: "fst (example_window 2) = [(0, 4096), (100000000, 8192)]"
  by (simp add: example_window_eq upt_rec)

theorem calculateSpeed_law_witness:
  "timeOrdered [(0, 4096)] \<and> list_all (\<lambda>s. fst s \<le> (100000000 :: int)) [(0, 4096 :: 64 word)] \<and>
   last (fst (updateTransferStats [(0, 4096)] 4096 4096 100000000)) = (100000000, 8192) \<and>
   (length [(0 :: int, 0 :: 64 word), (999999, 512)] < 2 \<or>
      elapsedMs [(0, 0), (999999, 512)] \<le> 0) \<and>
   calculateSpeed [(0, 0), (999999, 512)] = 0 \<and>
   2 \<le> length (fst (example_window 2)) \<and> 0 < elapsedMs (fst (example_window 2)) \<and>
   elapsedMs (fst (example_window 2)) < 2 ^ 53 \<and> byteSpan (fst (example_window 2)) < 2 ^ 53 \<and>
   (\<exists>\<delta> \<epsilon>. \<bar>\<delta>\<bar> \<le> 1 / 2 ^ 53 \<and> \<bar>\<epsilon>\<bar> \<le> 1 / 2 ^ 53 \<and>
      calculateSpeed (fst (example_window 2)) = 40960 * ((1 + \<delta>) / (1 + \<epsilon>)))"
proof -
  have h1: "timeOrdered [(0, 4096)]" by (simp add: timeOrdered_def)
  have h2: "\<forall>s \<in> set [(0, 4096 :: 64 word)]. fst s \<le> (100000000 :: int)" by simp
  have h3: "length [(0 :: int, 0 :: 64 word), (999999, 512)] < 2 \<or>
      elapsedMs [(0, 0), (999999, 512)] \<le> 0"
    by (simp add: elapsedMs_def duration_cast_milliseconds_def trunc_div_pos)
  have ms: "elapsedMs (fst (example_window 2)) = 100"
    by (simp add: example_window_2 elapsedMs_def duration_cast_milliseconds_def trunc_div_pos)
  have bs: "byteSpan (fst (example_window 2)) = 4096"
    by (simp add: example_window_2 byteSpan_def)
  have h4: "2 \<le> length (fst (example_window 2))" by (simp add: example_window_2)
  have h5: "0 < elapsedMs (fst (example_window 2))" "elapsedMs (fst (example_window 2)) < 2 ^ 53"
    by (simp_all add: ms)
  have h6: "byteSpan (fst (example_window 2)) < 2 ^ 53" by (simp add: bs)
  note t = calculateSpeed_law [of "[(0, 4096)]" 100000000 4096 4096]
  from t [of "fst (example_window 2)"] h1 h2
  have "last (fst (updateTransferStats [(0, 4096)] 4096 (4096 :: 16 word) 100000000)) =
      (100000000, 4096 + ucast (4096 :: 16 word))"
    by blast
  then have c1: "last (fst (updateTransferStats [(0, 4096)] 4096 4096 100000000)) = (100000000, 8192)"
    by simp
  from t [of "[(0, 0), (999999, 512)]"] h3
  have c2: "calculateSpeed [(0, 0), (999999, 512)] = 0" by blast
  from t [of "fst (example_window 2)"] h4 h5 h6
  obtain \<delta> \<epsilon> where "\<bar>\<delta>\<bar> \<le> 1 / 2 ^ 53" "\<bar>\<epsilon>\<bar> \<le> 1 / 2 ^ 53"
    and "calculateSpeed (fst (example_window 2)) =
           of_nat (byteSpan (fst (example_window 2))) /
           (of_int (elapsedMs (fst (example_window 2))) / 1000) * ((1 + \<delta>) / (1 + \<epsilon>))"
    by blast
  then have c3: "\<exists>\<delta> \<epsilon>. \<bar>\<delta>\<bar> \<le> 1 / 2 ^ 53 \<and> \<bar>\<epsilon>\<bar> \<le> 1 / 2 ^ 53 \<and>
      calculateSpeed (fst (example_window 2)) = 40960 * ((1 + \<delta>) / (1 + \<epsilon>))"
    by (intro exI [of _ \<delta>] exI [of _ \<epsilon>]) (simp add: ms bs)
  have h2': "list_all (\<lambda>s. fst s \<le> (100000000 :: int)) [(0, 4096 :: 64 word)]" by simp
  from h1 h2' c1 h3 c2 h4 h5 h6 c3 show ?thesis by blast
qed

subsection \<open>Device removal\<close>

lemma powerTimerTimeout_stopped:
  "addr dev \<notin> power_monitoringTimers pm \<Longrightarrow> powerTimerTimeout dev pm = (pm, [])"
  by (simp add: powerTimerTimeout_def)

lemma bandwidthTimerTimeout_stopped:
  "addr dev \<notin> bw_monitoringTimers bw \<Longrightarrow> bandwidthTimerTimeout now dev bw = (bw, [])"
  by (simp add: bandwidthTimerTimeout_def)

lemma updateDevicePower_other:
  assumes "updateDevicePower (Some d) pm = (pm', sigs)"
  shows "power_monitoringTimers pm' = power_monitoringTimers pm"
    and "a \<noteq> addr d \<Longrightarrow> power_deviceStats pm' a = power_deviceStats pm a"
    and "\<forall>s \<in> set sigs. signalDevice s = addr d"
  using assms by (auto simp: updateDevicePower_def Let_def split: if_splits)

lemma updateDeviceBandwidth_other:
  assumes "updateDeviceBandwidth now (Some d) bw = (bw', sigs)"
  shows "bw_monitoringTimers bw' = bw_monitoringTimers bw"
    and "a \<noteq> addr d \<Longrightarrow> bw_deviceStats bw' a = bw_deviceStats bw a"
    and "\<forall>s \<in> set sigs. signalDevice s = addr d"
  using assms by (auto simp: updateDeviceBandwidth_def Let_def split: if_splits)

lemma monitorTick_silent:
  assumes "silentFor a s" and "monitorTick t s = (s1, sigs)"
  shows "silentFor a s1 \<and> a \<notin> signalDevice ` set sigs"
proof (cases s)
  case (Pair pm bw)
  show ?thesis
  proof (cases t)
    case (PowerTick d)
    show ?thesis
    proof (cases "addr d \<in> power_monitoringTimers pm")
      case False
      with assms Pair PowerTick show ?thesis by (auto simp: powerTimerTimeout_def)
    next
      case True
      with assms Pair have ne: "a \<noteq> addr d" by (auto simp: silentFor_def)
      from True assms Pair PowerTick obtain pm'
        where u: "updateDevicePower (Some d) pm = (pm', sigs)" and s1: "s1 = (pm', bw)"
        by (auto simp: powerTimerTimeout_def split: prod.splits)
      from updateDevicePower_other [OF u] ne assms(1) Pair s1
      show ?thesis by (auto simp: silentFor_def)
    qed
  next
    case (BandwidthTick now d)
    show ?thesis
    proof (cases "addr d \<in> bw_monitoringTimers bw")
      case False
      with assms Pair BandwidthTick show ?thesis by (auto simp: bandwidthTimerTimeout_def)
    next
      case True
      with assms Pair have ne: "a \<noteq> addr d" by (auto simp: silentFor_def)
      from True assms Pair BandwidthTick obtain bw'
        where u: "updateDeviceBandwidth now (Some d) bw = (bw', sigs)" and s1: "s1 = (pm, bw')"
        by (auto simp: bandwidthTimerTimeout_def split: prod.splits)
      from updateDeviceBandwidth_other [OF u] ne assms(1) Pair s1
      show ?thesis by (auto simp: silentFor_def)
    qed
  qed
qed

lemma monitorTicks_silent:
  "silentFor a s \<Longrightarrow> monitorTicks ts s = (s2, sigs) \<Longrightarrow>
   silentFor a s2 \<and> a \<notin> signalDevice ` set sigs"
proof (induction ts arbitrary: s s2 sigs)
  case Nil
  then show ?case by simp
next
  case (Cons t ts)
  obtain s1 sigs1 where t: "monitorTick t s = (s1, sigs1)" by (cases "monitorTick t s")
  obtain s3 sigs3 where r: "monitorTicks ts s1 = (s3, sigs3)" by (cases "monitorTicks ts s1")
  from Cons.prems(2) t r have e: "s2 = s3" "sigs = sigs1 @ sigs3" by simp_all
  from monitorTick_silent [OF Cons.prems(1) t]
  have a1: "silentFor a s1" and b1: "a \<notin> signalDevice ` set sigs1" by blast+
  from Cons.IH [OF a1 r] have "silentFor a s3" and "a \<notin> signalDevice ` set sigs3" by blast+
  with b1 e show ?case by auto
qed


lemma handleDeviceRemoval_present:
  assumes "devices dm (getDeviceIdentifier device) = Some dev"
  shows "handleDeviceRemoval False device dm =
           Some (dm\<lparr>devices := (devices dm)(getDeviceIdentifier device := None),
                     powerMgr := PowerManager_stopMonitoring (Some dev) (powerMgr dm),
                     bwMonitor := BandwidthMonitor_stopMonitoring (Some dev) (bwMonitor dm)\<rparr>,
                 [RegistryErased (getDeviceIdentifier device), PowerMonitoringStopped (addr dev),
                  BandwidthMonitoringStopped (addr dev), deviceRemoved (addr dev)])"
  using assms by (simp add: handleDeviceRemoval_def lock_guard_def Let_def)

text \<open>
  Entered with \<open>devicesMutex\<close> held, as from \<open>pollDevices\<close>, neither function returns.
\<close>

lemma handleDeviceRemoval_held: "handleDeviceRemoval True device dm = None"
  by (simp add: handleDeviceRemoval_def lock_guard_def)

lemma handleDeviceArrival_held: "handleDeviceArrival True device usbDevice dm = None"
  by (simp add: handleDeviceArrival_def lock_guard_def)

lemma stopMonitoring_silent:
  "silentFor (addr dev)
     (PowerManager_stopMonitoring (Some dev) pm, BandwidthMonitor_stopMonitoring (Some dev) bw)"
  by (simp add: silentFor_def PowerManager_stopMonitoring_def BandwidthMonitor_stopMonitoring_def)

lemma example_identifier: "getDeviceIdentifier example_native_device = ''1234:5678:01:02''"
  by (simp add: getDeviceIdentifier_def example_native_device_def hex_upper_def setw_fill0_def
      hex_digits.simps [of 4660] hex_digits.simps [of 291] hex_digits.simps [of 18]
      hex_digits.simps [of 22136] hex_digits.simps [of 1383] hex_digits.simps [of 86]
      hex_digits.simps [of "Suc 0"] hex_digits.simps [of 2] hex_digits.simps [of 5]
      digit_char_def)

lemma example_registry_entry:
  "devices example_registry (getDeviceIdentifier example_native_device) =
     Some (example_open_device 0x03)"
  by (simp add: example_registry_def handleDeviceArrival_def lock_guard_def Let_def
      DeviceManager_new_def split: prod.splits)

lemma example_open_device_addr: "addr (example_open_device c) = 1"
  by (simp add: example_open_device_def example_device_def)

text \<open>
  C3 as stated fails in the order of the steps: the entry is erased from the registry
  first, and the two monitors are stopped afterwards.
\<close>

theorem removal_erases_before_stopping:
  "map_option snd (handleDeviceRemoval False example_native_device example_registry) =
     Some [RegistryErased ''1234:5678:01:02'', PowerMonitoringStopped 1,
           BandwidthMonitoringStopped 1, deviceRemoved 1] \<and>
   \<not> precedes (PowerMonitoringStopped 1) (RegistryErased ''1234:5678:01:02'')
       [RegistryErased ''1234:5678:01:02'', PowerMonitoringStopped 1,
        BandwidthMonitoringStopped 1, deviceRemoved 1] \<and>
   \<not> precedes (BandwidthMonitoringStopped 1) (RegistryErased ''1234:5678:01:02'')
       [RegistryErased ''1234:5678:01:02'', PowerMonitoringStopped 1,
        BandwidthMonitoringStopped 1, deviceRemoved 1]"
proof -
  have t: "map_option snd (handleDeviceRemoval False example_native_device example_registry) =
     Some [RegistryErased ''1234:5678:01:02'', PowerMonitoringStopped 1,
           BandwidthMonitoringStopped 1, deviceRemoved 1]"
    by (simp add: handleDeviceRemoval_present [OF example_registry_entry]
        example_identifier example_open_device_addr)
  show ?thesis unfolding t by (simp add: precedes_def)
qed

text \<open>
  C3, amended. Entered without \<open>devicesMutex\<close> held, \<open>handleDeviceRemoval\<close> returns. For a
  key present in the registry it erases the entry, then stops the power monitor, then the
  bandwidth monitor, then emits \<open>deviceRemoved\<close>. Afterwards the key is absent, neither
  monitor holds a timer for the device, and whatever timers fire from then on, no signal
  for the device is emitted and no statistics are stored for it. For an absent key nothing
  changes and nothing is emitted.
\<close>

theorem handleDeviceRemoval_law:
  "(devices dm (getDeviceIdentifier device) = None \<longrightarrow>
      handleDeviceRemoval False device dm = Some (dm, [])) \<and>
   (devices dm (getDeviceIdentifier device) = Some dev \<longrightarrow>
      (\<exists>dm'. handleDeviceRemoval False device dm =
          Some (dm', [RegistryErased (getDeviceIdentifier device),
                      PowerMonitoringStopped (addr dev),
                      BandwidthMonitoringStopped (addr dev), deviceRemoved (addr dev)]) \<and>
        devices dm' (getDeviceIdentifier device) = None \<and>
        addr dev \<notin> power_monitoringTimers (powerMgr dm') \<and>
        addr dev \<notin> bw_monitoringTimers (bwMonitor dm') \<and>
        (\<forall>ticks pm bw sigs.
           monitorTicks ticks (powerMgr dm', bwMonitor dm') = ((pm, bw), sigs) \<longrightarrow>
           addr dev \<notin> signalDevice ` set sigs \<and>
           power_deviceStats pm (addr dev) = None \<and> bw_deviceStats bw (addr dev) = None)))"
proof (intro conjI impI)
  assume "devices dm (getDeviceIdentifier device) = None"
  then show "handleDeviceRemoval False device dm = Some (dm, [])"
    by (simp add: handleDeviceRemoval_def lock_guard_def Let_def)
next
  assume p: "devices dm (getDeviceIdentifier device) = Some dev"
  let ?after = "dm\<lparr>devices := (devices dm)(getDeviceIdentifier device := None),
                     powerMgr := PowerManager_stopMonitoring (Some dev) (powerMgr dm),
                     bwMonitor := BandwidthMonitor_stopMonitoring (Some dev) (bwMonitor dm)\<rparr>"
  note r = handleDeviceRemoval_present [OF p]
  have e: "devices ?after (getDeviceIdentifier device) = None" by simp
  have s: "silentFor (addr dev) (powerMgr ?after, bwMonitor ?after)"
    using stopMonitoring_silent [of dev "powerMgr dm" "bwMonitor dm"] by simp
  from s have t1: "addr dev \<notin> power_monitoringTimers (powerMgr ?after)"
    and t2: "addr dev \<notin> bw_monitoringTimers (bwMonitor ?after)"
    by (simp_all add: silentFor_def)
  have q: "\<forall>ticks pm bw sigs.
           monitorTicks ticks (powerMgr ?after, bwMonitor ?after) = ((pm, bw), sigs) \<longrightarrow>
           addr dev \<notin> signalDevice ` set sigs \<and>
           power_deviceStats pm (addr dev) = None \<and> bw_deviceStats bw (addr dev) = None"
  proof (intro allI impI)
    fix ticks pm bw sigs
    assume m: "monitorTicks ticks (powerMgr ?after, bwMonitor ?after) = ((pm, bw), sigs)"
    from monitorTicks_silent [OF s m]
    have "silentFor (addr dev) (pm, bw)" and "addr dev \<notin> signalDevice ` set sigs" by blast+
    then show "addr dev \<notin> signalDevice ` set sigs \<and>
           power_deviceStats pm (addr dev) = None \<and> bw_deviceStats bw (addr dev) = None"
      by (simp add: silentFor_def)
  qed
  from r e t1 t2 q
  show "\<exists>dm'. handleDeviceRemoval False device dm =
          Some (dm', [RegistryErased (getDeviceIdentifier device),
                      PowerMonitoringStopped (addr dev),
                      BandwidthMonitoringStopped (addr dev), deviceRemoved (addr dev)]) \<and>
        devices dm' (getDeviceIdentifier device) = None \<and>
        addr dev \<notin> power_monitoringTimers (powerMgr dm') \<and>
        addr dev \<notin> bw_monitoringTimers (bwMonitor dm') \<and>
        (\<forall>ticks pm bw sigs.
           monitorTicks ticks (powerMgr dm', bwMonitor dm') = ((pm, bw), sigs) \<longrightarrow>
           addr dev \<notin> signalDevice ` set sigs \<and>
           power_deviceStats pm (addr dev) = None \<and> bw_deviceStats bw (addr dev) = None)"
    by (intro exI [of _ ?after] conjI)
qed

lemma example_registry_monitored:
  "1 \<in> power_monitoringTimers (powerMgr example_registry) \<and>
   1 \<in> bw_monitoringTimers (bwMonitor example_registry)"
  by (simp add: example_registry_def handleDeviceArrival_def lock_guard_def Let_def
      DeviceManager_new_def
      PowerManager_startMonitoring_def PowerManager_new_def updateDevicePower_def
      BandwidthMonitor_startMonitoring_def BandwidthMonitor_new_def isOpen_def
      example_open_device_def example_device_def split: prod.splits)

lemma example_registry_tick:
  "1 \<in> signalDevice ` set (snd (monitorTicks [PowerTick (example_open_device 0x03)]
                               (powerMgr example_registry, bwMonitor example_registry)))"
proof -
  have "addr (example_open_device 0x03) \<in> power_monitoringTimers (powerMgr example_registry)"
    using example_registry_monitored by (simp add: example_open_device_addr)
  then show ?thesis
    by (simp add: powerTimerTimeout_def updateDevicePower_def Let_def isOpen_def
        example_open_device_def example_device_def split: prod.splits)
qed

theorem handleDeviceRemoval_law_witness:
  "devices DeviceManager_new (getDeviceIdentifier example_native_device) = None \<and>
   handleDeviceRemoval False example_native_device DeviceManager_new =
     Some (DeviceManager_new, []) \<and>
   devices example_registry ''1234:5678:01:02'' = Some (example_open_device 0x03) \<and>
   1 \<in> power_monitoringTimers (powerMgr example_registry) \<and>
   1 \<in> signalDevice ` set (snd (monitorTicks [PowerTick (example_open_device 0x03)]
                               (powerMgr example_registry, bwMonitor example_registry))) \<and>
   (\<exists>dm'. handleDeviceRemoval False example_native_device example_registry =
        Some (dm', [RegistryErased ''1234:5678:01:02'', PowerMonitoringStopped 1,
                    BandwidthMonitoringStopped 1, deviceRemoved 1]) \<and>
      devices dm' ''1234:5678:01:02'' = None \<and>
      1 \<notin> power_monitoringTimers (powerMgr dm') \<and>
      1 \<notin> signalDevice ` set (snd (monitorTicks
          [PowerTick (example_open_device 0x03), BandwidthTick 5 (example_open_device 0x03)]
          (powerMgr dm', bwMonitor dm'))))"
proof -
  let ?d = "example_open_device 0x03"
  let ?ticks = "[PowerTick ?d, BandwidthTick 5 ?d]"
  have h1: "devices DeviceManager_new (getDeviceIdentifier example_native_device) = None"
    by (simp add: DeviceManager_new_def)
  from handleDeviceRemoval_law [of DeviceManager_new example_native_device ?d] h1
  have c1: "handleDeviceRemoval False example_native_device DeviceManager_new =
      Some (DeviceManager_new, [])"
    by blast
  note h2 = example_registry_entry
  from handleDeviceRemoval_law [of example_registry example_native_device ?d] h2
  obtain dm' where r: "handleDeviceRemoval False example_native_device example_registry =
          Some (dm', [RegistryErased (getDeviceIdentifier example_native_device),
                      PowerMonitoringStopped (addr ?d),
                      BandwidthMonitoringStopped (addr ?d), deviceRemoved (addr ?d)])"
    and c2: "devices dm' (getDeviceIdentifier example_native_device) = None"
    and c3: "addr ?d \<notin> power_monitoringTimers (powerMgr dm')"
    and c4: "\<forall>ticks pm bw sigs.
         monitorTicks ticks (powerMgr dm', bwMonitor dm') = ((pm, bw), sigs) \<longrightarrow>
         addr ?d \<notin> signalDevice ` set sigs \<and>
         power_deviceStats pm (addr ?d) = None \<and> bw_deviceStats bw (addr ?d) = None"
    by blast
  obtain pm bw sigs
    where m: "monitorTicks ?ticks (powerMgr dm', bwMonitor dm') = ((pm, bw), sigs)"
    by (metis surj_pair)
  from c4 m have "addr ?d \<notin> signalDevice ` set sigs" by blast
  with m have c5: "1 \<notin> signalDevice ` set (snd (monitorTicks ?ticks (powerMgr dm', bwMonitor dm')))"
    by (simp add: example_open_device_addr)
  from h2 have h2': "devices example_registry ''1234:5678:01:02'' = Some ?d"
    by (simp only: example_identifier)
  from r have r': "handleDeviceRemoval False example_native_device example_registry =
        Some (dm', [RegistryErased ''1234:5678:01:02'', PowerMonitoringStopped 1,
                    BandwidthMonitoringStopped 1, deviceRemoved 1])"
    by (simp only: example_identifier example_open_device_addr)
  from c2 have c2': "devices dm' ''1234:5678:01:02'' = None"
    by (simp only: example_identifier)
  from c3 have c3': "1 \<notin> power_monitoringTimers (powerMgr dm')"
    by (simp add: example_open_device_addr)
  from example_registry_monitored
  have h3: "1 \<in> power_monitoringTimers (powerMgr example_registry)" by blast
  from r' c2' c3' c5
  have after: "\<exists>dm'. handleDeviceRemoval False example_native_device example_registry =
        Some (dm', [RegistryErased ''1234:5678:01:02'', PowerMonitoringStopped 1,
                    BandwidthMonitoringStopped 1, deviceRemoved 1]) \<and>
      devices dm' ''1234:5678:01:02'' = None \<and>
      1 \<notin> power_monitoringTimers (powerMgr dm') \<and>
      1 \<notin> signalDevice ` set (snd (monitorTicks ?ticks (powerMgr dm', bwMonitor dm')))"
    by blast
  from h1 c1 h2' h3 example_registry_tick after show ?thesis by blast
qed

end
